theory Spec2Isabelle
  imports Complex_Main "HOL-Library.Sublist"
begin

section \<open>Lost and Found matching engine\<close>

text \<open>
  A shallow embedding of the matching code of the Lost and Found application: the server
  side triggers of \<^verbatim>\<open>functions/index.js\<close> and the client side pipeline of
  \<^verbatim>\<open>dashboard.js\<close>.

  Conventions of the embedding.
  \<^item> A JavaScript string is a \<^typ>\<open>string\<close>: a sequence of 8-bit characters, read as the
    code points U+0000 to U+00FF, each of them one code unit of the language. On these,
    \<^verbatim>\<open>toLowerCase\<close>, \<^verbatim>\<open>trim\<close> and the class \<^verbatim>\<open>\s\<close> are as in the language. A string
    with a character beyond U+00FF is outside the model.
  \<^item> A property that may be missing from an object is an \<^typ>\<open>'a option\<close>, \<open>None\<close>
    standing for \<^verbatim>\<open>undefined\<close>. A property that holds \<^verbatim>\<open>null\<close> is outside the model;
    the posting form of \<^verbatim>\<open>dashboard.js\<close> writes strings.
  \<^item> A JavaScript number is a rational; every arithmetic operation rounds its exact
    result to the nearest IEEE 754 double (ties to even), as the language does.
\<close>

subsection \<open>Strings\<close>

definition upperChars :: string where
  "upperChars = ''ABCDEFGHIJKLMNOPQRSTUVWXYZ''"

definition lowerChars :: string where
  "lowerChars = ''abcdefghijklmnopqrstuvwxyz''"

definition digitChars :: string where
  "digitChars = ''0123456789''"

text \<open>The letters beyond ASCII that \<^verbatim>\<open>toLowerCase\<close> maps: U+00C0 to U+00DE but for the
  multiplication sign U+00D7, each to the character 32 places further.\<close>

definition latinUpperChars :: string where
  "latinUpperChars =
     [CHR 0xC0, CHR 0xC1, CHR 0xC2, CHR 0xC3, CHR 0xC4, CHR 0xC5, CHR 0xC6, CHR 0xC7,
      CHR 0xC8, CHR 0xC9, CHR 0xCA, CHR 0xCB, CHR 0xCC, CHR 0xCD, CHR 0xCE, CHR 0xCF,
      CHR 0xD0, CHR 0xD1, CHR 0xD2, CHR 0xD3, CHR 0xD4, CHR 0xD5, CHR 0xD6,
      CHR 0xD8, CHR 0xD9, CHR 0xDA, CHR 0xDB, CHR 0xDC, CHR 0xDD, CHR 0xDE]"

definition latinLowerChars :: string where
  "latinLowerChars =
     [CHR 0xE0, CHR 0xE1, CHR 0xE2, CHR 0xE3, CHR 0xE4, CHR 0xE5, CHR 0xE6, CHR 0xE7,
      CHR 0xE8, CHR 0xE9, CHR 0xEA, CHR 0xEB, CHR 0xEC, CHR 0xED, CHR 0xEE, CHR 0xEF,
      CHR 0xF0, CHR 0xF1, CHR 0xF2, CHR 0xF3, CHR 0xF4, CHR 0xF5, CHR 0xF6,
      CHR 0xF8, CHR 0xF9, CHR 0xFA, CHR 0xFB, CHR 0xFC, CHR 0xFD, CHR 0xFE]"

text \<open>The regular expression class \<^verbatim>\<open>\s\<close>, which is also what \<^verbatim>\<open>trim\<close> removes: space,
  tab, line feed, vertical tab, form feed, carriage return and the no-break space U+00A0.\<close>

definition isSpace :: "char \<Rightarrow> bool" where
  "isSpace c =
     (c \<in> set [CHR '' '', CHR 0x09, CHR 0x0A, CHR 0x0B, CHR 0x0C, CHR 0x0D, CHR 0xA0])"

definition lowerChar :: "char \<Rightarrow> char" where
  "lowerChar c =
     (case map_of (zip (upperChars @ latinUpperChars) (lowerChars @ latinLowerChars)) c of
        Some l \<Rightarrow> l
      | None \<Rightarrow> c)"

definition toLowerCase :: "string \<Rightarrow> string" where
  "toLowerCase s = map lowerChar s"

text \<open>\<^verbatim>\<open>s.trim()\<close>\<close>

definition trim :: "string \<Rightarrow> string" where
  "trim s = rev (dropWhile isSpace (rev (dropWhile isSpace s)))"

text \<open>\<^verbatim>\<open>s.replace(/[^a-z0-9\s]/g, '')\<close>: the characters the expression does not match
  are the ones that stay.\<close>

definition isAlnumOrSpace :: "char \<Rightarrow> bool" where
  "isAlnumOrSpace c = (c \<in> set lowerChars \<or> c \<in> set digitChars \<or> isSpace c)"

definition removeSpecial :: "string \<Rightarrow> string" where
  "removeSpecial s = filter isAlnumOrSpace s"

text \<open>\<^verbatim>\<open>s.split(/\s+/)\<close>: every maximal run of white space is one separator; a run at
  the start or at the end of the string leaves an empty first or last piece, and the empty
  string splits into one empty piece.\<close>

function splitSpaces :: "string \<Rightarrow> string list" where
  "splitSpaces [] = [[]]"
| "splitSpaces (c # cs) =
     (if isSpace c then [] # splitSpaces (dropWhile isSpace cs)
      else (case splitSpaces cs of
              [] \<Rightarrow> [[c]]
            | t # ts \<Rightarrow> (c # t) # ts))"
  by pat_completeness auto
termination
proof (relation "measure length")
  fix c :: char and cs :: string
  have "length (dropWhile isSpace cs) \<le> length cs"
    by (rule length_dropWhile_le)
  then show "(dropWhile isSpace cs, c # cs) \<in> measure length"
    by simp
qed simp_all

text \<open>\<^verbatim>\<open>a.includes(b)\<close>: \<open>b\<close> occurs in \<open>a\<close> as a contiguous piece.\<close>

fun includesStr :: "string \<Rightarrow> string \<Rightarrow> bool" where
  "includesStr [] b = (b = [])"
| "includesStr (c # cs) b = (prefix b (c # cs) \<or> includesStr cs b)"

text \<open>A template literal prints a string as it is and a missing property as the word
  \<^verbatim>\<open>undefined\<close>.\<close>

definition templateValue :: "string option \<Rightarrow> string" where
  "templateValue v = (case v of None \<Rightarrow> ''undefined'' | Some s \<Rightarrow> s)"

text \<open>\<^verbatim>\<open>new Set(xs)\<close> keeps the first occurrence of every element, in insertion order;
  a set is the list of its elements in that order.\<close>

definition setAdd :: "'a \<Rightarrow> 'a list \<Rightarrow> 'a list" where
  "setAdd x s = (if x \<in> set s then s else s @ [x])"

definition newSet :: "'a list \<Rightarrow> 'a list" where
  "newSet xs = fold setAdd xs []"

subsection \<open>Configuration\<close>

definition MATCH_THRESHOLD :: int where
  "MATCH_THRESHOLD = 50"

definition WEIGHTS_category :: rat where
  "WEIGHTS_category = 40"

definition WEIGHTS_location :: rat where
  "WEIGHTS_location = 30"

definition WEIGHTS_keywords :: rat where
  "WEIGHTS_keywords = 30"

definition STOP_WORDS :: "string list" where
  "STOP_WORDS =
    [''a'', ''an'', ''the'', ''is'', ''are'', ''was'', ''were'', ''be'', ''been'',
     ''being'', ''have'', ''has'', ''had'', ''do'', ''does'', ''did'', ''will'',
     ''would'', ''could'', ''should'', ''may'', ''might'', ''must'', ''shall'',
     ''can'', ''need'', ''to'', ''of'', ''in'', ''for'', ''on'', ''with'', ''at'',
     ''by'', ''from'', ''as'', ''into'', ''through'', ''during'', ''before'',
     ''after'', ''above'', ''below'', ''between'', ''under'', ''again'',
     ''further'', ''then'', ''once'', ''here'', ''there'', ''when'', ''where'',
     ''why'', ''how'', ''all'', ''each'', ''few'', ''more'', ''most'', ''other'',
     ''some'', ''such'', ''no'', ''nor'', ''not'', ''only'', ''own'', ''same'',
     ''so'', ''than'', ''too'', ''very'', ''just'', ''and'', ''but'', ''if'', ''or'',
     ''because'', ''until'', ''while'', ''my'', ''i'', ''me'', ''we'', ''our'',
     ''you'', ''your'', ''he'', ''she'', ''it'', ''they'', ''them'', ''his'', ''her'',
     ''its'', ''their'', ''this'', ''that'', ''these'', ''those'', ''lost'', ''found'',
     ''please'', ''help'', ''anyone'', ''someone'', ''near'', ''around'', ''today'',
     ''yesterday'', ''morning'', ''evening'', ''night'', ''afternoon'']"

subsection \<open>Keyword Extractor and Location Normalizer\<close>

text \<open>\<^verbatim>\<open>extractKeywords\<close> is the same expression in both files. \<^verbatim>\<open>!text\<close> holds of
  a missing text and of the empty string.\<close>

definition extractKeywords :: "string option \<Rightarrow> string list" where
  "extractKeywords text =
     (case text of
        None \<Rightarrow> []
      | Some t \<Rightarrow>
          if t = [] then []
          else take 20
                 (filter (\<lambda>word. 2 < length word \<and> word \<notin> set STOP_WORDS)
                    (splitSpaces (removeSpecial (toLowerCase t)))))"

definition truthy :: "string option \<Rightarrow> bool" where
  "truthy v = (case v of None \<Rightarrow> False | Some s \<Rightarrow> s \<noteq> [])"

text \<open>\<^verbatim>\<open>normalizeLocation\<close> of \<^verbatim>\<open>functions/index.js\<close>.\<close>

definition normalizeLocation :: "string option \<Rightarrow> string" where
  "normalizeLocation loc =
     (case loc of
        None \<Rightarrow> []
      | Some l \<Rightarrow> if l = [] then [] else trim (toLowerCase l))"

text \<open>\<^verbatim>\<open>normalizeLocation\<close> of \<^verbatim>\<open>dashboard.js\<close>:
  \<^verbatim>\<open>loc?.toLowerCase().trim() || ''\<close>.\<close>

definition normalizeLocation_client :: "string option \<Rightarrow> string" where
  "normalizeLocation_client loc =
     (case loc of
        None \<Rightarrow> []
      | Some l \<Rightarrow> (let r = trim (toLowerCase l) in if r \<noteq> [] then r else []))"

subsection \<open>Numbers\<close>

text \<open>
  The value of a JavaScript number is a rational. \<open>toDouble\<close> rounds a rational to the
  nearest double: the significand has 53 bits, and a tie goes to the even significand.
  Overflow and subnormal numbers are left out: the scores stay far from both.
\<close>

definition roundTiesEven :: "rat \<Rightarrow> int" where
  "roundTiesEven x =
     (let n = \<lfloor>x\<rfloor>; r = x - of_int n
      in if r < 1 / 2 then n
         else if 1 / 2 < r then n + 1
         else if even n then n else n + 1)"

text \<open>The exponent of a positive number: \<open>2 powi log2floor x \<le> x < 2 powi (log2floor x + 1)\<close>.\<close>

function log2floor :: "rat \<Rightarrow> int" where
  "log2floor x =
     (if 2 \<le> x then log2floor (x / 2) + 1
      else if 0 < x \<and> x < 1 then log2floor (x * 2) - 1
      else 0)"
  by pat_completeness auto
termination
proof (relation "measure (\<lambda>x. if 1 \<le> x then nat \<lfloor>x\<rfloor> else nat \<lceil>1 / x\<rceil>)")
  fix x :: rat
  assume "2 \<le> x"
  then have "\<lfloor>x / 2\<rfloor> < \<lfloor>x\<rfloor>" and "0 < \<lfloor>x\<rfloor>"
    by linarith+
  with \<open>2 \<le> x\<close> show "(x / 2, x) \<in> measure (\<lambda>x. if 1 \<le> x then nat \<lfloor>x\<rfloor> else nat \<lceil>1 / x\<rceil>)"
    by simp
next
  fix x :: rat
  assume a: "\<not> 2 \<le> x" "0 < x \<and> x < 1"
  then have y: "1 < 1 / x"
    by simp
  then have c2: "2 \<le> \<lceil>1 / x\<rceil>"
    by linarith
  show "(x * 2, x) \<in> measure (\<lambda>x. if 1 \<le> x then nat \<lfloor>x\<rfloor> else nat \<lceil>1 / x\<rceil>)"
  proof (cases "1 \<le> x * 2")
    case True
    with a have "\<lfloor>x * 2\<rfloor> = 1"
      by linarith
    with True a c2 show ?thesis
      by simp
  next
    case False
    with a have "2 < 1 / x"
      by (simp add: field_simps)
    moreover have "1 / (x * 2) = (1 / x) / 2"
      by simp
    ultimately have "\<lceil>1 / (x * 2)\<rceil> < \<lceil>1 / x\<rceil>"
      by linarith
    with False a c2 show ?thesis
      by simp
  qed
qed simp

declare log2floor.simps [simp del]

definition toDouble :: "rat \<Rightarrow> rat" where
  "toDouble x =
     (if x = 0 then 0
      else (let q = 2 powi (log2floor \<bar>x\<bar> - 52)
            in sgn x * of_int (roundTiesEven (\<bar>x\<bar> / q)) * q))"

text \<open>\<^verbatim>\<open>x + y\<close>, \<^verbatim>\<open>x * y\<close>, \<^verbatim>\<open>x / y\<close> (the divisors of this program are never
  zero), \<^verbatim>\<open>Math.min\<close> and \<^verbatim>\<open>Math.round\<close>, which rounds a tie upwards.\<close>

definition fadd :: "rat \<Rightarrow> rat \<Rightarrow> rat" where
  "fadd x y = toDouble (x + y)"

definition fmul :: "rat \<Rightarrow> rat \<Rightarrow> rat" where
  "fmul x y = toDouble (x * y)"

definition fdiv :: "rat \<Rightarrow> rat \<Rightarrow> rat" where
  "fdiv x y = toDouble (x / y)"

definition Math_min :: "rat \<Rightarrow> rat \<Rightarrow> rat" where
  "Math_min x y = min x y"

definition Math_round :: "rat \<Rightarrow> int" where
  "Math_round x = \<lfloor>x + 1 / 2\<rfloor>"

subsection \<open>Data model\<close>

text \<open>The values \<^verbatim>\<open>"lost"\<close> and \<^verbatim>\<open>"found"\<close> of the property \<^verbatim>\<open>type\<close>, and the values
  of the property \<^verbatim>\<open>status\<close>.\<close>

datatype itemKind = Lost | Found

datatype itemStatus = Open | Resolved

text \<open>A document of the \<^verbatim>\<open>items\<close> collection, with its document id. The properties the
  code guards against being missing are optional; \<open>uid\<close> and \<open>email\<close> come from the signed-in
  user. \<open>cachedKeywords\<close> is the property \<^verbatim>\<open>keywords\<close>.\<close>

record item =
  itemId :: string
  itemType :: itemKind
  category :: "string option"
  title :: "string option"
  description :: "string option"
  location :: "string option"
  cachedKeywords :: "string list option"
  normalizedLocation :: "string option"
  matchProcessed :: bool
  status :: itemStatus
  uid :: string
  email :: string
  expiresAt :: "int option"

record matchDetails =
  categoryMatched :: bool
  locationMatched :: bool
  keywordOverlap :: nat
  matchedKeywords :: "string list"

text \<open>The result \<^verbatim>\<open>{ score, matchDetails }\<close> of the Score Calculator.\<close>

record scoreResult =
  score :: int
  details :: matchDetails

text \<open>An entry of the local array \<^verbatim>\<open>matches\<close>.\<close>

record candidate =
  cItem :: item
  cScore :: int
  cDetails :: matchDetails

text \<open>A document of the \<^verbatim>\<open>notifications\<close> collection. The display title, the creation
  time stamp and the server's constant \<^verbatim>\<open>emailSent: false\<close> are left out.\<close>

record notification =
  userId :: string
  userEmail :: string
  notifType :: string
  message :: string
  n_lostItemId :: string
  n_foundItemId :: string
  matchScore :: int
  n_matchDetails :: matchDetails
  read :: bool

text \<open>A document of the \<^verbatim>\<open>matches\<close> collection (the creation time stamp is left out).\<close>

record matchRecord =
  lostItemId :: string
  foundItemId :: string
  r_score :: int
  matchedOn :: matchDetails
  r_status :: string

subsection \<open>Score Calculator\<close>

text \<open>The text \<^verbatim>\<open>`${item.title} ${item.description}`\<close>.\<close>

definition itemText :: "item \<Rightarrow> string" where
  "itemText i = templateValue (title i) @ '' '' @ templateValue (description i)"

text \<open>\<^verbatim>\<open>item.normalizedLocation || normalizeLocation(item.location)\<close>\<close>

definition effectiveLocation :: "item \<Rightarrow> string" where
  "effectiveLocation i =
     (case normalizedLocation i of
        None \<Rightarrow> normalizeLocation (location i)
      | Some l \<Rightarrow> if l \<noteq> [] then l else normalizeLocation (location i))"

text \<open>\<^verbatim>\<open>item.keywords || extractKeywords(...)\<close>: an array, also the empty one, is truthy.\<close>

definition effectiveKeywords :: "item \<Rightarrow> string list" where
  "effectiveKeywords i =
     (case cachedKeywords i of
        Some k \<Rightarrow> k
      | None \<Rightarrow> extractKeywords (Some (itemText i)))"

text \<open>The location tiers; \<open>None\<close> when no tier applies.\<close>

definition locationPoints :: "string \<Rightarrow> string \<Rightarrow> rat option" where
  "locationPoints loc1 loc2 =
     (if loc1 \<noteq> [] \<and> loc2 \<noteq> [] then
        (if loc1 = loc2 then Some WEIGHTS_location
         else if includesStr loc1 loc2 \<or> includesStr loc2 loc1
           then Some (fmul WEIGHTS_location (toDouble (7 / 10)))
         else (let words1 = splitSpaces loc1;
                   words2 = splitSpaces loc2;
                   commonWords = filter (\<lambda>w. w \<in> set words2 \<and> 2 < length w) words1
               in if 0 < length commonWords
                  then Some (fmul WEIGHTS_location (toDouble (1 / 2)))
                  else None))
      else None)"

text \<open>The keyword contribution, for an intersection of \<open>i\<close> and a union of \<open>u\<close> keywords.\<close>

definition keywordScore :: "nat \<Rightarrow> nat \<Rightarrow> rat" where
  "keywordScore i u =
     (let jaccardScore = fdiv (of_nat i) (of_nat u);
          overlapBonus = fmul (Math_min (fdiv (of_nat i) 5) 1) (toDouble (3 / 10))
      in fmul (fadd jaccardScore overlapBonus) WEIGHTS_keywords)"

text \<open>The three steps of \<^verbatim>\<open>calculateMatchScore\<close>, from the category flag, the two
  locations and the two keyword sets.\<close>

definition scoreFrom :: "bool \<Rightarrow> string \<Rightarrow> string \<Rightarrow> string list \<Rightarrow> string list \<Rightarrow> bool \<Rightarrow> scoreResult" where
  "scoreFrom categoryHit loc1 loc2 kw1 kw2 keywordHit =
     (let score0 = 0;
          score1 = (if categoryHit then fadd score0 WEIGHTS_category else score0);
          score2 = (case locationPoints loc1 loc2 of
                      Some p \<Rightarrow> fadd score1 p
                    | None \<Rightarrow> score1);
          intersection = filter (\<lambda>k. k \<in> set kw2) kw1;
          unionSet = newSet (kw1 @ kw2);
          score3 = (if keywordHit
                    then fadd score2 (keywordScore (length intersection) (length unionSet))
                    else score2)
      in \<lparr> score = Math_round (Math_min score3 100),
           details = \<lparr> categoryMatched = categoryHit,
                       locationMatched = (locationPoints loc1 loc2 \<noteq> None),
                       keywordOverlap = (if keywordHit then length intersection else 0),
                       matchedKeywords = (if keywordHit then take 5 intersection else []) \<rparr> \<rparr>)"

text \<open>\<^verbatim>\<open>calculateMatchScore\<close> of \<^verbatim>\<open>functions/index.js\<close>.\<close>

definition calculateMatchScore :: "item \<Rightarrow> item \<Rightarrow> scoreResult" where
  "calculateMatchScore item1 item2 =
     (let loc1 = effectiveLocation item1;
          loc2 = effectiveLocation item2;
          kw1 = newSet (effectiveKeywords item1);
          kw2 = newSet (effectiveKeywords item2);
          intersection = filter (\<lambda>k. k \<in> set kw2) kw1;
          unionSet = newSet (kw1 @ kw2)
      in scoreFrom
           (truthy (category item1) \<and> truthy (category item2) \<and> category item1 = category item2)
           loc1 loc2 kw1 kw2
           (0 < length unionSet \<and> 0 < length intersection))"

text \<open>\<^verbatim>\<open>calculateMatchScore\<close> of \<^verbatim>\<open>dashboard.js\<close>: no cached field is read, the second
  category is not tested for truth and the union is not tested for emptiness.\<close>

definition calculateMatchScore_client :: "item \<Rightarrow> item \<Rightarrow> scoreResult" where
  "calculateMatchScore_client item1 item2 =
     (let loc1 = normalizeLocation_client (location item1);
          loc2 = normalizeLocation_client (location item2);
          kw1 = newSet (extractKeywords (Some (itemText item1)));
          kw2 = newSet (extractKeywords (Some (itemText item2)));
          intersection = filter (\<lambda>k. k \<in> set kw2) kw1
      in scoreFrom
           (truthy (category item1) \<and> category item1 = category item2)
           loc1 loc2 kw1 kw2
           (0 < length intersection))"

subsection \<open>The store\<close>

text \<open>
  The three collections, each a list of documents in retrieval order. A call to the store
  may be rejected: \<open>failAfter = Some k\<close> lets the next \<open>k\<close> calls through and rejects the
  one after them, \<open>None\<close> rejects none. A rejected call raises; no function of the
  program catches, so a raised error ends the pass and is the result \<open>Inl\<close>.
\<close>

datatype error = StoreError | NotFound

record world =
  items :: "item list"
  notifications :: "notification list"
  matches :: "matchRecord list"
  failAfter :: "nat option"

type_synonym 'a io = "world \<Rightarrow> (error + 'a) \<times> world"

definition storeCall :: "'a io \<Rightarrow> 'a io" where
  "storeCall call w =
     (case failAfter w of
        None \<Rightarrow> call w
      | Some k \<Rightarrow>
          (case k of
             0 \<Rightarrow> (Inl StoreError, w)
           | Suc n \<Rightarrow> call (w\<lparr>failAfter := Some n\<rparr>)))"

text \<open>\<^verbatim>\<open>collection("notifications").add(n)\<close> and \<^verbatim>\<open>collection("matches").add(r)\<close>\<close>

definition addNotification :: "notification \<Rightarrow> unit io" where
  "addNotification n = storeCall (\<lambda>w. (Inr (), w\<lparr>notifications := notifications w @ [n]\<rparr>))"

definition addMatch :: "matchRecord \<Rightarrow> unit io" where
  "addMatch r = storeCall (\<lambda>w. (Inr (), w\<lparr>matches := matches w @ [r]\<rparr>))"

text \<open>The query for the items of one type that are open.\<close>

definition queryOpenItems :: "itemKind \<Rightarrow> item list io" where
  "queryOpenItems ty =
     storeCall (\<lambda>w. (Inr (filter (\<lambda>i. itemType i = ty \<and> status i = Open) (items w)), w))"

text \<open>\<^verbatim>\<open>snap.ref.update({ keywords, normalizedLocation, matchProcessed: true })\<close>: the
  three properties are set on the document of the given id; the update of a document that
  is not there is rejected.\<close>

definition setEnrichment :: "string \<Rightarrow> string list \<Rightarrow> string \<Rightarrow> item \<Rightarrow> item" where
  "setEnrichment docId kws loc i =
     (if itemId i = docId
      then i\<lparr>cachedKeywords := Some kws, normalizedLocation := Some loc, matchProcessed := True\<rparr>
      else i)"

definition updateEnrichment :: "string \<Rightarrow> string list \<Rightarrow> string \<Rightarrow> unit io" where
  "updateEnrichment docId kws loc =
     storeCall (\<lambda>w.
       if docId \<in> set (map itemId (items w))
       then (Inr (), w\<lparr>items := map (setEnrichment docId kws loc) (items w)\<rparr>)
       else (Inl NotFound, w))"

subsection \<open>Dedup Guard\<close>

text \<open>\<^verbatim>\<open>matchExists\<close> of \<^verbatim>\<open>functions/index.js\<close>, with \<^verbatim>\<open>limit(1)\<close>.\<close>

definition matchExists :: "string \<Rightarrow> string \<Rightarrow> bool io" where
  "matchExists lostId foundId =
     storeCall (\<lambda>w.
       (let existing = take 1 (filter (\<lambda>r. lostItemId r = lostId \<and> foundItemId r = foundId)
                                 (matches w))
        in (Inr (existing \<noteq> []), w)))"

text \<open>\<^verbatim>\<open>matchExists\<close> of \<^verbatim>\<open>dashboard.js\<close>.\<close>

definition matchExists_client :: "string \<Rightarrow> string \<Rightarrow> bool io" where
  "matchExists_client lostId foundId =
     storeCall (\<lambda>w.
       (Inr (filter (\<lambda>r. lostItemId r = lostId \<and> foundItemId r = foundId) (matches w) \<noteq> []),
        w))"

subsection \<open>Notification Dispatcher\<close>

definition quoted :: "string \<Rightarrow> string" where
  "quoted s = [CHR 0x22] @ s @ [CHR 0x22]"

definition newMatchRecord :: "item \<Rightarrow> item \<Rightarrow> int \<Rightarrow> matchDetails \<Rightarrow> matchRecord" where
  "newMatchRecord lostItem foundItem sc md =
     \<lparr> lostItemId = itemId lostItem, foundItemId = itemId foundItem, r_score = sc,
       matchedOn = md, r_status = ''pending'' \<rparr>"

text \<open>The notification for the owner of the lost item, the same in both files.\<close>

definition lostNotif :: "item \<Rightarrow> item \<Rightarrow> int \<Rightarrow> matchDetails \<Rightarrow> notification" where
  "lostNotif lostItem foundItem sc md =
     \<lparr> userId = uid lostItem, userEmail = email lostItem, notifType = ''match_found'',
       message = ''Your lost '' @ quoted (templateValue (title lostItem))
                 @ '' may match a found item '' @ quoted (templateValue (title foundItem))
                 @ '' near '' @ quoted (templateValue (location foundItem)) @ ''.'',
       n_lostItemId = itemId lostItem, n_foundItemId = itemId foundItem,
       matchScore = sc, n_matchDetails = md, read = False \<rparr>"

text \<open>The notification for the owner of the found item, of \<^verbatim>\<open>dashboard.js\<close> only.\<close>

definition foundNotif :: "item \<Rightarrow> item \<Rightarrow> int \<Rightarrow> matchDetails \<Rightarrow> notification" where
  "foundNotif lostItem foundItem sc md =
     \<lparr> userId = uid foundItem, userEmail = email foundItem, notifType = ''match_found'',
       message = ''Your found '' @ quoted (templateValue (title foundItem))
                 @ '' may belong to someone who lost '' @ quoted (templateValue (title lostItem))
                 @ ''.'',
       n_lostItemId = itemId lostItem, n_foundItemId = itemId foundItem,
       matchScore = sc, n_matchDetails = md, read = False \<rparr>"

text \<open>\<^verbatim>\<open>createNotification\<close> of \<^verbatim>\<open>functions/index.js\<close>: one notification, for the owner
  of the lost item, then the match record. The result lists the notification returned, none
  for \<^verbatim>\<open>null\<close>.\<close>

definition createNotification :: "item \<Rightarrow> item \<Rightarrow> int \<Rightarrow> matchDetails \<Rightarrow> notification list io" where
  "createNotification lostItem foundItem sc md w =
     (if uid lostItem = uid foundItem then (Inr [], w)
      else (case addNotification (lostNotif lostItem foundItem sc md) w of
              (Inl e, w1) \<Rightarrow> (Inl e, w1)
            | (Inr _, w1) \<Rightarrow>
                (case addMatch (newMatchRecord lostItem foundItem sc md) w1 of
                   (Inl e, w2) \<Rightarrow> (Inl e, w2)
                 | (Inr _, w2) \<Rightarrow> (Inr [lostNotif lostItem foundItem sc md], w2))))"

text \<open>\<^verbatim>\<open>createMatchNotification\<close> of \<^verbatim>\<open>dashboard.js\<close>: a notification for each owner,
  then the match record. The push notification shown to the signed-in user is display
  only and left out. The result lists the notifications returned, none for \<^verbatim>\<open>null\<close>.\<close>

definition createMatchNotification :: "item \<Rightarrow> item \<Rightarrow> int \<Rightarrow> matchDetails \<Rightarrow> notification list io" where
  "createMatchNotification lostItem foundItem sc md w =
     (if uid lostItem = uid foundItem then (Inr [], w)
      else (case addNotification (lostNotif lostItem foundItem sc md) w of
              (Inl e, w1) \<Rightarrow> (Inl e, w1)
            | (Inr _, w1) \<Rightarrow>
                (case addNotification (foundNotif lostItem foundItem sc md) w1 of
                   (Inl e, w2) \<Rightarrow> (Inl e, w2)
                 | (Inr _, w2) \<Rightarrow>
                     (case addMatch (newMatchRecord lostItem foundItem sc md) w2 of
                        (Inl e, w3) \<Rightarrow> (Inl e, w3)
                      | (Inr _, w3) \<Rightarrow>
                          (Inr [lostNotif lostItem foundItem sc md,
                                foundNotif lostItem foundItem sc md], w3)))))"

subsection \<open>Match Finder\<close>

text \<open>\<^verbatim>\<open>item.expiresAt && item.expiresAt < now\<close>: the number \<open>0\<close> is falsy, like a
  missing property.\<close>

definition expired :: "int \<Rightarrow> item \<Rightarrow> bool" where
  "expired now i = (case expiresAt i of None \<Rightarrow> False | Some t \<Rightarrow> t \<noteq> 0 \<and> t < now)"

definition toCandidate :: "item \<Rightarrow> scoreResult \<Rightarrow> candidate" where
  "toCandidate i r = \<lparr> cItem = i, cScore = score r, cDetails = details r \<rparr>"

text \<open>The loop of the triggers over the documents of the query: an expired document is
  skipped, the others are scored and kept from the threshold on.\<close>

fun collectMatches :: "int \<Rightarrow> (item \<Rightarrow> scoreResult) \<Rightarrow> item list \<Rightarrow> candidate list" where
  "collectMatches now scoreOf [] = []"
| "collectMatches now scoreOf (doc # docs) =
     (if expired now doc then collectMatches now scoreOf docs
      else (let r = scoreOf doc
            in if MATCH_THRESHOLD \<le> score r
               then toCandidate doc r # collectMatches now scoreOf docs
               else collectMatches now scoreOf docs))"

text \<open>\<^verbatim>\<open>matches.sort((a, b) => b.score - a.score)\<close>: the sort of the language is stable.\<close>

definition sortByScore :: "candidate list \<Rightarrow> candidate list" where
  "sortByScore ms = sort_key (\<lambda>m. - cScore m) ms"

text \<open>The Match Finder of the triggers: \<^verbatim>\<open>matches.slice(0, 3)\<close> after the loop and the
  sort.\<close>

definition topMatches :: "int \<Rightarrow> (item \<Rightarrow> scoreResult) \<Rightarrow> item list \<Rightarrow> candidate list" where
  "topMatches now scoreOf docs = take 3 (sortByScore (collectMatches now scoreOf docs))"

text \<open>The Match Finder of \<^verbatim>\<open>findMatches\<close>: map, filter, sort, slice.\<close>

definition topMatches_client :: "int \<Rightarrow> item \<Rightarrow> item list \<Rightarrow> candidate list" where
  "topMatches_client now newItem docs =
     take 3 (sortByScore
       (filter (\<lambda>m. MATCH_THRESHOLD \<le> cScore m \<and>
                     (case expiresAt (cItem m) of
                        None \<Rightarrow> True
                      | Some t \<Rightarrow> t = 0 \<or> now \<le> t))
          (map (\<lambda>d. toCandidate d (calculateMatchScore_client newItem d)) docs)))"

subsection \<open>Trigger Orchestration\<close>

text \<open>
  The loop over the accepted matches, the same in the two triggers and in
  \<^verbatim>\<open>findMatches\<close> but for the order of the pair, the Dedup Guard and the dispatcher it
  calls: \<open>orient\<close> gives the pair (lost item, found item) of a match. The counter goes up
  after every call of the dispatcher.
\<close>

fun notifyLoop ::
  "(candidate \<Rightarrow> item \<times> item) \<Rightarrow> (string \<Rightarrow> string \<Rightarrow> bool io) \<Rightarrow>
   (item \<Rightarrow> item \<Rightarrow> int \<Rightarrow> matchDetails \<Rightarrow> notification list io) \<Rightarrow>
   candidate list \<Rightarrow> nat \<Rightarrow> nat io" where
  "notifyLoop orient guard dispatch [] count w = (Inr count, w)"
| "notifyLoop orient guard dispatch (m # ms) count w =
     (case guard (itemId (fst (orient m))) (itemId (snd (orient m))) w of
        (Inl e, w1) \<Rightarrow> (Inl e, w1)
      | (Inr exists, w1) \<Rightarrow>
          if exists then notifyLoop orient guard dispatch ms count w1
          else (case dispatch (fst (orient m)) (snd (orient m)) (cScore m) (cDetails m) w1 of
                  (Inl e, w2) \<Rightarrow> (Inl e, w2)
                | (Inr _, w2) \<Rightarrow> notifyLoop orient guard dispatch ms (count + 1) w2))"

text \<open>The pair (lost item, found item) of a match: the new item is the lost one in
  \<^verbatim>\<open>onLostItemCreated\<close>, the found one in \<^verbatim>\<open>onFoundItemCreated\<close>, and
  \<^verbatim>\<open>findMatches\<close> decides by \<^verbatim>\<open>newItem.type === "lost"\<close>.\<close>

definition lostFirst :: "item \<Rightarrow> candidate \<Rightarrow> item \<times> item" where
  "lostFirst newItem m = (newItem, cItem m)"

definition foundLast :: "item \<Rightarrow> candidate \<Rightarrow> item \<times> item" where
  "foundLast newItem m = (cItem m, newItem)"

definition byType :: "item \<Rightarrow> candidate \<Rightarrow> item \<times> item" where
  "byType newItem m = (if itemType newItem = Lost then (newItem, cItem m) else (cItem m, newItem))"

text \<open>The enrichment both triggers compute for the new item.\<close>

definition enriched :: "item \<Rightarrow> item" where
  "enriched newItem =
     newItem\<lparr>cachedKeywords := Some (extractKeywords (Some (itemText newItem))),
             normalizedLocation := Some (normalizeLocation (location newItem))\<rparr>"

text \<open>\<^verbatim>\<open>onLostItemCreated\<close>. The trigger returns \<^verbatim>\<open>null\<close>; the result here is the
  \<^verbatim>\<open>notificationCount\<close> it logs, or \<open>None\<close> when the item is skipped. \<open>now\<close> is the value
  of \<^verbatim>\<open>Date.now()\<close>.\<close>

definition onLostItemCreated :: "int \<Rightarrow> item \<Rightarrow> nat option io" where
  "onLostItemCreated now newItem w =
     (if itemType newItem \<noteq> Lost then (Inr None, w)
      else (case updateEnrichment (itemId newItem)
                   (extractKeywords (Some (itemText newItem)))
                   (normalizeLocation (location newItem)) w of
              (Inl e, w1) \<Rightarrow> (Inl e, w1)
            | (Inr _, w1) \<Rightarrow>
                (case queryOpenItems Found w1 of
                   (Inl e, w2) \<Rightarrow> (Inl e, w2)
                 | (Inr docs, w2) \<Rightarrow>
                     (case notifyLoop (lostFirst newItem) matchExists createNotification
                             (topMatches now
                                (\<lambda>foundItem. calculateMatchScore (enriched newItem) foundItem)
                                docs)
                             0 w2 of
                        (Inl e, w3) \<Rightarrow> (Inl e, w3)
                      | (Inr count, w3) \<Rightarrow> (Inr (Some count), w3)))))"

text \<open>\<^verbatim>\<open>onFoundItemCreated\<close>\<close>

definition onFoundItemCreated :: "int \<Rightarrow> item \<Rightarrow> nat option io" where
  "onFoundItemCreated now newItem w =
     (if itemType newItem \<noteq> Found then (Inr None, w)
      else (case updateEnrichment (itemId newItem)
                   (extractKeywords (Some (itemText newItem)))
                   (normalizeLocation (location newItem)) w of
              (Inl e, w1) \<Rightarrow> (Inl e, w1)
            | (Inr _, w1) \<Rightarrow>
                (case queryOpenItems Lost w1 of
                   (Inl e, w2) \<Rightarrow> (Inl e, w2)
                 | (Inr docs, w2) \<Rightarrow>
                     (case notifyLoop (foundLast newItem) matchExists createNotification
                             (topMatches now
                                (\<lambda>lostItem. calculateMatchScore lostItem (enriched newItem))
                                docs)
                             0 w2 of
                        (Inl e, w3) \<Rightarrow> (Inl e, w3)
                      | (Inr count, w3) \<Rightarrow> (Inr (Some count), w3)))))"

text \<open>\<^verbatim>\<open>findMatches\<close> of \<^verbatim>\<open>dashboard.js\<close>; the result is the \<^verbatim>\<open>count\<close> it returns.\<close>

definition findMatches :: "int \<Rightarrow> item \<Rightarrow> nat io" where
  "findMatches now newItem w =
     (case queryOpenItems (if itemType newItem = Lost then Found else Lost) w of
        (Inl e, w1) \<Rightarrow> (Inl e, w1)
      | (Inr docs, w1) \<Rightarrow>
          notifyLoop (byType newItem) matchExists_client createMatchNotification
            (topMatches_client now newItem docs) 0 w1)"

subsection \<open>Call sites\<close>

text \<open>
  The orchestrator runs from three call sites: the client calls \<^verbatim>\<open>findMatches\<close> once it
  has stored a new item, and the creation of the document starts both triggers of the
  server, each of which skips an item of the other type. The result of a pass is the count
  it returns or logs, \<open>None\<close> for a skipped item.
\<close>

datatype entryPoint = ClientCall | LostTrigger | FoundTrigger

definition runEntry :: "entryPoint \<Rightarrow> int \<Rightarrow> item \<Rightarrow> nat option io" where
  "runEntry ep now newItem w =
     (case ep of
        ClientCall \<Rightarrow>
          (case findMatches now newItem w of
             (Inl e, w1) \<Rightarrow> (Inl e, w1)
           | (Inr count, w1) \<Rightarrow> (Inr (Some count), w1))
      | LostTrigger \<Rightarrow> onLostItemCreated now newItem w
      | FoundTrigger \<Rightarrow> onFoundItemCreated now newItem w)"

text \<open>A trigger that does not skip the item starts with the update of its document.\<close>

definition updatesDocument :: "entryPoint \<Rightarrow> item \<Rightarrow> bool" where
  "updatesDocument ep newItem =
     (case ep of
        ClientCall \<Rightarrow> False
      | LostTrigger \<Rightarrow> itemType newItem = Lost
      | FoundTrigger \<Rightarrow> itemType newItem = Found)"

text \<open>The notifications the dispatcher of a call site writes for one match.\<close>

definition notificationsPerMatch :: "entryPoint \<Rightarrow> nat" where
  "notificationsPerMatch ep = (case ep of ClientCall \<Rightarrow> 2 | LostTrigger \<Rightarrow> 1 | FoundTrigger \<Rightarrow> 1)"

text \<open>The documents of the store after the update of a trigger.\<close>

definition enrichedItems :: "item \<Rightarrow> world \<Rightarrow> item list" where
  "enrichedItems newItem w =
     map (setEnrichment (itemId newItem) (extractKeywords (Some (itemText newItem)))
            (normalizeLocation (location newItem)))
       (items w)"

text \<open>
  The pairs (lost item, found item) of the accepted matches of a pass, in ranked order:
  what its loop goes through once the calls before the loop have gone through. They depend
  on the documents of the store only.
\<close>

definition rankedPairs :: "entryPoint \<Rightarrow> int \<Rightarrow> item \<Rightarrow> world \<Rightarrow> (item \<times> item) list" where
  "rankedPairs ep now newItem w =
     (case ep of
        ClientCall \<Rightarrow>
          map (byType newItem)
            (topMatches_client now newItem
               (filter (\<lambda>i. itemType i = (if itemType newItem = Lost then Found else Lost) \<and>
                             status i = Open) (items w)))
      | LostTrigger \<Rightarrow>
          if itemType newItem \<noteq> Lost then []
          else map (lostFirst newItem)
                 (topMatches now (\<lambda>foundItem. calculateMatchScore (enriched newItem) foundItem)
                    (filter (\<lambda>i. itemType i = Found \<and> status i = Open)
                       (enrichedItems newItem w)))
      | FoundTrigger \<Rightarrow>
          if itemType newItem \<noteq> Found then []
          else map (foundLast newItem)
                 (topMatches now (\<lambda>lostItem. calculateMatchScore lostItem (enriched newItem))
                    (filter (\<lambda>i. itemType i = Lost \<and> status i = Open)
                       (enrichedItems newItem w))))"

subsection \<open>Records of a pair\<close>

text \<open>The match records and the notifications the store holds for the pair of a lost and a
  found item id.\<close>

definition matchesFor :: "string \<Rightarrow> string \<Rightarrow> world \<Rightarrow> matchRecord list" where
  "matchesFor a b w = filter (\<lambda>r. lostItemId r = a \<and> foundItemId r = b) (matches w)"

definition notificationsFor :: "string \<Rightarrow> string \<Rightarrow> world \<Rightarrow> notification list" where
  "notificationsFor a b w =
     filter (\<lambda>n. n_lostItemId n = a \<and> n_foundItemId n = b) (notifications w)"

text \<open>The store after a dispatch that went through: the notifications and the match
  record are appended.\<close>

definition addRecords :: "notification list \<Rightarrow> matchRecord \<Rightarrow> world \<Rightarrow> world" where
  "addRecords ns r w = w\<lparr>notifications := notifications w @ ns, matches := matches w @ [r]\<rparr>"

subsection \<open>Example documents\<close>

text \<open>A lost wallet and a found purse of another owner.\<close>

definition lostWallet :: item where
  "lostWallet =
     \<lparr> itemId = ''L1'', itemType = Lost, category = Some ''wallet'',
       title = Some ''Blue wallet'', description = Some ''Brown leather'',
       location = Some '' Library '', cachedKeywords = None, normalizedLocation = None,
       matchProcessed = False, status = Open, uid = ''alice'',
       email = ''alice@thapar.edu'', expiresAt = Some 2000 \<rparr>"

definition foundPurse :: item where
  "foundPurse =
     \<lparr> itemId = ''F2'', itemType = Found, category = Some ''wallet'',
       title = Some ''Purse'', description = Some ''Red'',
       location = Some ''Library'', cachedKeywords = None, normalizedLocation = None,
       matchProcessed = False, status = Open, uid = ''carol'',
       email = ''carol@thapar.edu'', expiresAt = None \<rparr>"

text \<open>An item whose text yields no keyword.\<close>

definition plainItem :: item where
  "plainItem =
     \<lparr> itemId = ''P1'', itemType = Lost, category = Some ''keys'',
       title = Some ''My'', description = Some ''it'',
       location = Some ''Hostel'', cachedKeywords = None, normalizedLocation = None,
       matchProcessed = False, status = Open, uid = ''dave'',
       email = ''dave@thapar.edu'', expiresAt = None \<rparr>"

text \<open>The object \<^verbatim>\<open>{}\<close>, as far as the Score Calculator reads it.\<close>

definition blankItem :: item where
  "blankItem =
     \<lparr> itemId = [], itemType = Lost, category = None, title = None, description = None,
       location = None, cachedKeywords = None, normalizedLocation = None,
       matchProcessed = False, status = Open, uid = [], email = [], expiresAt = None \<rparr>"

text \<open>Copies of the found purse: one that expired at time 500, one whose \<open>expiresAt\<close> is
  the number 0, one posted by the owner of the lost wallet.\<close>

definition stalePurse :: item where
  "stalePurse = foundPurse\<lparr>itemId := ''F3'', expiresAt := Some 500\<rparr>"

definition zeroPurse :: item where
  "zeroPurse = foundPurse\<lparr>itemId := ''F4'', uid := ''erin'', expiresAt := Some 0\<rparr>"

definition ownPurse :: item where
  "ownPurse = foundPurse\<lparr>itemId := ''F5'', uid := ''alice''\<rparr>"

text \<open>A store that holds the lost wallet and found purses, and nothing else yet.\<close>

definition campus :: world where
  "campus =
     \<lparr> items = [lostWallet, foundPurse, stalePurse, zeroPurse],
       notifications = [], matches = [], failAfter = None \<rparr>"

text \<open>The store \<open>campus\<close> with a resolved purse of the owner of the lost wallet, and a store
  whose only found item is an open purse of that owner.\<close>

definition resolvedPurse :: item where
  "resolvedPurse = foundPurse\<lparr>itemId := ''F6'', status := Resolved, uid := ''alice''\<rparr>"

definition annex :: world where
  "annex =
     \<lparr> items = [lostWallet, foundPurse, stalePurse, zeroPurse, resolvedPurse],
       notifications = [], matches = [], failAfter = None \<rparr>"


text \<open>The document of the lost wallet after the update of its trigger.\<close>

definition enrichedWallet :: item where
  "enrichedWallet =
     setEnrichment ''L1'' (extractKeywords (Some (itemText lostWallet)))
       (normalizeLocation (location lostWallet)) lostWallet"

section \<open>Properties\<close>

subsection \<open>Rounding to a double\<close>

lemma powi_succ: "(2::rat) powi (n + 1) = 2 * 2 powi n"
  by (simp add: power_int_add)

lemma powi_pred: "(2::rat) powi (n - 1) = 2 powi n / 2"
  by (simp add: power_int_diff)

lemma log2floor_bounds:
  "0 < x \<Longrightarrow> 2 powi (log2floor x) \<le> x \<and> x < 2 powi (log2floor x + 1)"
proof (induction x rule: log2floor.induct)
  case (1 x)
  show ?case
  proof (cases "2 \<le> x")
    case True
    then have eq: "log2floor x = log2floor (x / 2) + 1"
      by (subst log2floor.simps) simp
    from "1.IH"(1) [OF True] "1.prems"
    have "2 powi (log2floor (x / 2)) \<le> x / 2 \<and> x / 2 < 2 powi (log2floor (x / 2) + 1)"
      by simp
    then show ?thesis
      unfolding eq powi_succ by (simp add: field_simps)
  next
    case False
    show ?thesis
    proof (cases "x < 1")
      case True
      with False "1.prems" have eq: "log2floor x = log2floor (x * 2) - 1"
        by (subst log2floor.simps) simp
      from "1.IH"(2) [OF False] True "1.prems"
      have "2 powi (log2floor (x * 2)) \<le> x * 2 \<and> x * 2 < 2 powi (log2floor (x * 2) + 1)"
        by simp
      then show ?thesis
        unfolding eq powi_succ by (simp add: powi_pred field_simps)
    next
      case ge: False
      with False have "log2floor x = 0"
        by (subst log2floor.simps) simp
      with False ge show ?thesis
        by simp
    qed
  qed
qed

lemma roundTiesEven_ge: "of_int m \<le> x \<Longrightarrow> m \<le> roundTiesEven x"
proof -
  assume "of_int m \<le> x"
  then have "m \<le> \<lfloor>x\<rfloor>"
    by (simp add: le_floor_iff)
  then show ?thesis
    by (simp add: roundTiesEven_def Let_def)
qed

lemma roundTiesEven_int: "roundTiesEven (of_int m) = m"
  by (simp add: roundTiesEven_def Let_def)

lemma toDouble_nonneg: "0 \<le> x \<Longrightarrow> 0 \<le> toDouble x"
proof (cases "x = 0")
  case True
  then show ?thesis by (simp add: toDouble_def)
next
  case False
  assume "0 \<le> x"
  with False have pos: "0 < x" by simp
  define q :: rat where "q = 2 powi (log2floor \<bar>x\<bar> - 52)"
  have q: "0 < q" by (simp add: q_def)
  with pos have "of_int 0 \<le> \<bar>x\<bar> / q" by simp
  then have "0 \<le> roundTiesEven (\<bar>x\<bar> / q)" by (rule roundTiesEven_ge)
  then have "(0::rat) \<le> of_int (roundTiesEven (\<bar>x\<bar> / q)) * q"
    using q by simp
  moreover from pos have "toDouble x = of_int (roundTiesEven (\<bar>x\<bar> / q)) * q"
    by (simp add: toDouble_def Let_def q_def)
  ultimately show ?thesis by simp
qed

text \<open>A double below the argument stays below its rounding.\<close>

lemma toDouble_ge:
  assumes c: "0 < c" and rep: "toDouble c = c" and le: "c \<le> x"
  shows "c \<le> toDouble x"
proof -
  from c le have x: "0 < x" by simp
  define ec where "ec = log2floor c"
  define ex where "ex = log2floor x"
  define q :: rat where "q = 2 powi (ex - 52)"
  have q: "0 < q" by (simp add: q_def)
  from log2floor_bounds [OF c] have bc: "2 powi ec \<le> c" "c < 2 powi (ec + 1)"
    by (simp_all add: ec_def)
  from log2floor_bounds [OF x] have bx: "2 powi ex \<le> x" "x < 2 powi (ex + 1)"
    by (simp_all add: ex_def)
  have tx: "toDouble x = of_int (roundTiesEven (x / q)) * q"
    using x by (simp add: toDouble_def Let_def q_def ex_def)
  have mono: "ec \<le> ex"
  proof (rule ccontr)
    assume "\<not> ec \<le> ex"
    then have "ex + 1 \<le> ec" by simp
    then have "(2::rat) powi (ex + 1) \<le> 2 powi ec"
      by (simp add: power_int_increasing)
    with bc bx le show False by simp
  qed
  show ?thesis
  proof (cases "ec = ex")
    case True
    from c rep have "c = of_int (roundTiesEven (c / q)) * q"
      by (simp add: toDouble_def Let_def q_def ec_def [symmetric] True [symmetric])
    then obtain m where m: "c = of_int m * q" by blast
    with q le have "of_int m \<le> x / q"
      by (simp add: field_simps)
    then have "m \<le> roundTiesEven (x / q)" by (rule roundTiesEven_ge)
    then have "(of_int m :: rat) \<le> of_int (roundTiesEven (x / q))" by simp
    with q have "of_int m * q \<le> of_int (roundTiesEven (x / q)) * q"
      by (simp add: mult_right_mono)
    with m tx show ?thesis by simp
  next
    case False
    with mono have lt: "ec + 1 \<le> ex" by simp
    define P :: rat where "P = 2 powi 52"
    have P: "P = of_int (2 ^ 52)" by (simp add: P_def)
    have "P * q = 2 powi (52 + (ex - 52))"
      unfolding P_def q_def by (rule power_int_add [symmetric]) simp
    then have split: "(2::rat) powi ex = P * q" by simp
    with bx q have "P \<le> x / q"
      by (simp add: field_simps)
    with P have "of_int (2 ^ 52) \<le> x / q" by simp
    then have "2 ^ 52 \<le> roundTiesEven (x / q)" by (rule roundTiesEven_ge)
    then have "(of_int (2 ^ 52) :: rat) \<le> of_int (roundTiesEven (x / q))"
      by (simp only: of_int_le_iff)
    with P have "P \<le> of_int (roundTiesEven (x / q))" by simp
    with q have "P * q \<le> of_int (roundTiesEven (x / q)) * q"
      by (intro mult_right_mono) simp_all
    with tx split have "2 powi ex \<le> toDouble x" by simp
    moreover from lt have "(2::rat) powi (ec + 1) \<le> 2 powi ex"
      by (simp add: power_int_increasing)
    ultimately show ?thesis using bc by simp
  qed
qed

lemma toDouble_1: "toDouble 1 = 1" by code_simp
lemma toDouble_30: "toDouble 30 = 30" by code_simp
lemma toDouble_40: "toDouble 40 = 40" by code_simp
lemma toDouble_70: "toDouble 70 = 70" by code_simp
lemma toDouble_100: "toDouble 100 = 100" by code_simp

subsection \<open>Keyword Extractor\<close>

lemma splitSpaces_chars:
  "t \<in> set (splitSpaces s) \<Longrightarrow> c \<in> set t \<Longrightarrow> c \<in> set s \<and> \<not> isSpace c"
proof (induction s arbitrary: t rule: splitSpaces.induct)
  case 1
  then show ?case by simp
next
  case (2 d ds)
  show ?case
  proof (cases "isSpace d")
    case True
    with "2.prems" have "t \<in> set (splitSpaces (dropWhile isSpace ds))"
      by auto
    with "2.IH"(1) [OF True] "2.prems"(2) have "c \<in> set (dropWhile isSpace ds) \<and> \<not> isSpace c"
      by blast
    then show ?thesis
      by (auto dest: set_dropWhileD)
  next
    case False
    show ?thesis
    proof (cases "splitSpaces ds")
      case Nil
      with False "2.prems" show ?thesis by auto
    next
      case (Cons u us)
      with False "2.prems" have "t = d # u \<or> t \<in> set us"
        by auto
      then show ?thesis
      proof
        assume t: "t = d # u"
        show ?thesis
        proof (cases "c = d")
          case True
          with False show ?thesis by simp
        next
          case neq: False
          with t "2.prems"(2) have "c \<in> set u" by simp
          moreover have "u \<in> set (splitSpaces ds)" using Cons by simp
          ultimately show ?thesis using "2.IH"(2) [OF False] by auto
        qed
      next
        assume "t \<in> set us"
        then have "t \<in> set (splitSpaces ds)" using Cons by simp
        then show ?thesis using "2.IH"(2) [OF False] "2.prems"(2) by auto
      qed
    qed
  qed
qed

lemma removeSpecial_chars: "c \<in> set (removeSpecial s) \<Longrightarrow> isAlnumOrSpace c"
  by (simp add: removeSpecial_def)

lemma extractKeywords_subset:
  "w \<in> set (extractKeywords text) \<Longrightarrow>
     \<exists>t. 2 < length w \<and> w \<notin> set STOP_WORDS \<and> w \<in> set (splitSpaces (removeSpecial (toLowerCase t)))"
  by (auto simp: extractKeywords_def split: option.splits if_splits dest!: in_set_takeD)

text \<open>
  C7. For every input text, also a missing or an empty one, the Keyword Extractor returns
  at most 20 tokens; every token is made of lower case letters and digits only, is longer
  than 2 characters and is no stop word; a missing or an empty text yields no token.
\<close>

theorem extractKeywords_tokens:
  "length (extractKeywords text) \<le> 20 \<and>
   (\<forall>w \<in> set (extractKeywords text).
      (\<forall>c \<in> set w. c \<in> set lowerChars \<or> c \<in> set digitChars) \<and>
      2 < length w \<and> w \<notin> set STOP_WORDS) \<and>
   extractKeywords None = [] \<and> extractKeywords (Some []) = []"
proof -
  have len: "length (extractKeywords text) \<le> 20"
    by (simp add: extractKeywords_def split: option.splits)
  have tok: "(\<forall>c \<in> set w. c \<in> set lowerChars \<or> c \<in> set digitChars) \<and>
      2 < length w \<and> w \<notin> set STOP_WORDS" if "w \<in> set (extractKeywords text)" for w
  proof -
    from extractKeywords_subset [OF that] obtain t where
      w: "2 < length w" "w \<notin> set STOP_WORDS"
        "w \<in> set (splitSpaces (removeSpecial (toLowerCase t)))"
      by blast
    have "c \<in> set lowerChars \<or> c \<in> set digitChars" if "c \<in> set w" for c
    proof -
      from splitSpaces_chars [OF w(3) that]
      have "c \<in> set (removeSpecial (toLowerCase t))" and "\<not> isSpace c"
        by simp_all
      with removeSpecial_chars show ?thesis
        by (auto simp: isAlnumOrSpace_def)
    qed
    with w show ?thesis by blast
  qed
  have "extractKeywords None = []" and "extractKeywords (Some []) = []"
    by (simp_all add: extractKeywords_def)
  with len tok show ?thesis by blast
qed

theorem extractKeywords_tokens_witness:
  "extractKeywords (Some ''Lost my Blue WALLET near the library, 2nd floor!!'')
     = [''blue'', ''wallet'', ''library'', ''2nd'', ''floor''] \<and>
   length (extractKeywords (Some ''Lost my Blue WALLET near the library, 2nd floor!!'')) \<le> 20 \<and>
   2 < length ''wallet'' \<and> ''wallet'' \<notin> set STOP_WORDS \<and>
   extractKeywords None = []"
proof -
  have ev: "extractKeywords (Some ''Lost my Blue WALLET near the library, 2nd floor!!'')
     = [''blue'', ''wallet'', ''library'', ''2nd'', ''floor'']"
    by code_simp
  then have mem: "''wallet'' \<in> set (extractKeywords (Some ''Lost my Blue WALLET near the library, 2nd floor!!''))"
    by simp
  from extractKeywords_tokens [of "Some ''Lost my Blue WALLET near the library, 2nd floor!!''"] mem ev
  show ?thesis by blast
qed

subsection \<open>Score Calculator\<close>

lemma set_fold_setAdd: "set (fold setAdd xs acc) = set xs \<union> set acc"
  by (induction xs arbitrary: acc) (auto simp: setAdd_def)

lemma distinct_fold_setAdd: "distinct acc \<Longrightarrow> distinct (fold setAdd xs acc)"
  by (induction xs arbitrary: acc) (auto simp: setAdd_def)

lemma set_newSet: "set (newSet xs) = set xs"
  by (simp add: newSet_def set_fold_setAdd)

lemma distinct_newSet: "distinct (newSet xs)"
  by (simp add: newSet_def distinct_fold_setAdd)

lemma length_newSet: "length (newSet xs) = card (set xs)"
  using distinct_card [OF distinct_newSet, of xs] by (simp add: set_newSet)

lemma newSet_empty_iff: "newSet xs = [] \<longleftrightarrow> xs = []"
  using set_newSet [of xs] by (metis set_empty)


lemma normalizeLocation_client_eq: "normalizeLocation_client loc = normalizeLocation loc"
  by (auto simp: normalizeLocation_client_def normalizeLocation_def Let_def trim_def toLowerCase_def
      split: option.splits)

text \<open>
  C10. For every pair of items that carry no cached enrichment (no keywords and no
  normalized location on the record), the Score Calculator of the server and the one of the
  client return the same score and the same match details.
\<close>

theorem calculateMatchScore_client_server:
  assumes "cachedKeywords item1 = None" and "normalizedLocation item1 = None"
    and "cachedKeywords item2 = None" and "normalizedLocation item2 = None"
  shows "calculateMatchScore item1 item2 = calculateMatchScore_client item1 item2"
proof -
  have loc: "effectiveLocation item1 = normalizeLocation_client (location item1)"
    "effectiveLocation item2 = normalizeLocation_client (location item2)"
    using assms by (simp_all add: effectiveLocation_def truthy_def normalizeLocation_client_eq)
  have kw: "effectiveKeywords item1 = extractKeywords (Some (itemText item1))"
    "effectiveKeywords item2 = extractKeywords (Some (itemText item2))"
    using assms by (simp_all add: effectiveKeywords_def)
  have cat: "(truthy (category item1) \<and> truthy (category item2) \<and> category item1 = category item2)
      = (truthy (category item1) \<and> category item1 = category item2)"
    by auto
  have hit: "(0 < length (newSet (k1 @ k2)) \<and> 0 < length (filter (\<lambda>k. k \<in> set k2) k1))
      = (0 < length (filter (\<lambda>k. k \<in> set k2) k1))" for k1 k2 :: "string list"
  proof -
    have "k1 \<noteq> []" if "0 < length (filter (\<lambda>k. k \<in> set k2) k1)"
      using that by auto
    then have "newSet (k1 @ k2) \<noteq> []" if "0 < length (filter (\<lambda>k. k \<in> set k2) k1)"
      using that by (simp add: newSet_empty_iff)
    then show ?thesis by auto
  qed
  show ?thesis
    unfolding calculateMatchScore_def calculateMatchScore_client_def Let_def loc kw cat hit ..
qed

theorem calculateMatchScore_client_server_witness:
  "calculateMatchScore lostWallet foundPurse = calculateMatchScore_client lostWallet foundPurse \<and>
   score (calculateMatchScore lostWallet foundPurse) = 70"
proof -
  have "score (calculateMatchScore lostWallet foundPurse) = 70"
    by code_simp
  moreover have "cachedKeywords lostWallet = None" "normalizedLocation lostWallet = None"
    "cachedKeywords foundPurse = None" "normalizedLocation foundPurse = None"
    by (simp_all add: lostWallet_def foundPurse_def)
  ultimately show ?thesis
    using calculateMatchScore_client_server [of lostWallet foundPurse] by simp
qed

lemma keywordScore_same: 
  assumes "0 < n"
  shows "30 \<le> keywordScore n n"
proof -
  define b where "b = fmul (Math_min (fdiv (of_nat n) 5) 1) (toDouble (3 / 10))"
  have "0 \<le> fdiv (of_nat n) 5"
    unfolding fdiv_def by (rule toDouble_nonneg) simp
  then have "0 \<le> Math_min (fdiv (of_nat n) 5) 1"
    by (simp add: Math_min_def)
  moreover have "0 \<le> toDouble (3 / 10)"
    by (rule toDouble_nonneg) simp
  ultimately have "0 \<le> Math_min (fdiv (of_nat n) 5) 1 * toDouble (3 / 10)"
    by (rule mult_nonneg_nonneg)
  then have b: "0 \<le> b"
    unfolding b_def fmul_def by (rule toDouble_nonneg)
  from assms have j: "fdiv (of_nat n) (of_nat n) = 1"
    by (simp add: fdiv_def toDouble_1)
  have "1 \<le> fadd 1 b"
    unfolding fadd_def using b by (intro toDouble_ge) (simp_all add: toDouble_1)
  then have "30 \<le> fadd 1 b * 30" by simp
  then have "30 \<le> fmul (fadd 1 b) 30"
    unfolding fmul_def by (intro toDouble_ge) (simp_all add: toDouble_30)
  then show ?thesis
    by (simp add: keywordScore_def Let_def j b_def WEIGHTS_keywords_def)
qed

lemma scoreFrom_full:
  assumes l: "l \<noteq> []" and k: "k \<noteq> []" and d: "distinct k"
  shows "score (scoreFrom True l l k k True) = 100"
proof -
  have inter: "filter (\<lambda>x. x \<in> set k) k = k" by simp
  have un: "length (newSet (k @ k)) = length k"
    using d by (simp add: length_newSet distinct_card)
  from k have n: "0 < length k" by simp
  have lp: "locationPoints l l = Some 30"
    using l by (simp add: locationPoints_def WEIGHTS_location_def)
  have s2: "fadd (fadd 0 WEIGHTS_category) 30 = 70"
    by (simp add: fadd_def WEIGHTS_category_def toDouble_40 toDouble_70)
  have "100 \<le> 70 + keywordScore (length k) (length k)"
    using keywordScore_same [OF n] by simp
  then have "100 \<le> fadd 70 (keywordScore (length k) (length k))"
    unfolding fadd_def by (intro toDouble_ge) (simp_all add: toDouble_100)
  then have "Math_min (fadd 70 (keywordScore (length k) (length k))) 100 = 100"
    by (simp add: Math_min_def)
  moreover have "Math_round 100 = 100"
    by code_simp
  ultimately show ?thesis
    by (simp add: scoreFrom_def Let_def inter un lp s2)
qed

text \<open>
  C6, as amended. Two items with the same title, description, non-empty category, location
  and cached enrichment score exactly 100 whenever the location the calculator compares is
  not empty and the keyword list it compares is not empty: on the server these are the
  cached values, or the computed ones where none is cached; on the client always the
  computed ones.
\<close>

theorem identical_items_score:
  assumes "category item1 = Some c" and "c \<noteq> []" and "category item2 = category item1"
    and "title item2 = title item1" and "description item2 = description item1"
    and "location item2 = location item1"
    and "cachedKeywords item2 = cachedKeywords item1"
    and "normalizedLocation item2 = normalizedLocation item1"
  shows "(effectiveLocation item1 \<noteq> [] \<and> effectiveKeywords item1 \<noteq> []
            \<longrightarrow> score (calculateMatchScore item1 item2) = 100) \<and>
         (normalizeLocation_client (location item1) \<noteq> [] \<and> extractKeywords (Some (itemText item1)) \<noteq> []
            \<longrightarrow> score (calculateMatchScore_client item1 item2) = 100)"
proof -
  have cat: "truthy (category item1)" "truthy (category item2)"
    using assms by (simp_all add: truthy_def)
  have itx: "itemText item2 = itemText item1"
    using assms by (simp add: itemText_def)
  have same: "effectiveLocation item2 = effectiveLocation item1"
    "effectiveKeywords item2 = effectiveKeywords item1"
    using assms by (simp_all add: effectiveLocation_def effectiveKeywords_def itx split: option.splits)
  have server: "score (calculateMatchScore item1 item2) = 100"
    if "effectiveLocation item1 \<noteq> []" and "effectiveKeywords item1 \<noteq> []"
  proof -
    let ?k = "newSet (effectiveKeywords item1)"
    from that have k: "?k \<noteq> []" by (simp add: newSet_empty_iff)
    then have hit: "0 < length (newSet (?k @ ?k)) \<and> 0 < length (filter (\<lambda>x. x \<in> set ?k) ?k)"
      by (simp add: newSet_empty_iff)
    show ?thesis
      using scoreFrom_full [OF that(1) k distinct_newSet] cat assms(3) hit
      by (simp add: calculateMatchScore_def Let_def same)
  qed
  have client: "score (calculateMatchScore_client item1 item2) = 100"
    if "normalizeLocation_client (location item1) \<noteq> []" and "extractKeywords (Some (itemText item1)) \<noteq> []"
  proof -
    let ?k = "newSet (extractKeywords (Some (itemText item1)))"
    from that have k: "?k \<noteq> []" by (simp add: newSet_empty_iff)
    then have hit: "0 < length (filter (\<lambda>x. x \<in> set ?k) ?k)"
      by simp
    show ?thesis
      using scoreFrom_full [OF that(1) k distinct_newSet] cat assms(3,6) hit
      by (simp add: calculateMatchScore_client_def Let_def itx)
  qed
  from server client show ?thesis by blast
qed

theorem identical_items_score_witness:
  "score (calculateMatchScore lostWallet lostWallet) = 100 \<and>
   score (calculateMatchScore_client lostWallet lostWallet) = 100"
proof -
  have c: "category lostWallet = Some ''wallet''" "''wallet'' \<noteq> []"
    by (simp_all add: lostWallet_def)
  have "effectiveLocation lostWallet \<noteq> []" "effectiveKeywords lostWallet \<noteq> []"
    "normalizeLocation_client (location lostWallet) \<noteq> []"
    "extractKeywords (Some (itemText lostWallet)) \<noteq> []"
    by code_simp+
  with identical_items_score [OF c, of lostWallet] show ?thesis
    by simp
qed

text \<open>The claim as stated fails where the shared text yields no keyword: the category and
  the location give 70, and the keywords nothing.\<close>

theorem identical_items_score_counterexample:
  "title plainItem = Some ''My'' \<and> description plainItem = Some ''it'' \<and>
   category plainItem = Some ''keys'' \<and> location plainItem = Some ''Hostel'' \<and>
   score (calculateMatchScore plainItem plainItem) = 70 \<and>
   score (calculateMatchScore_client plainItem plainItem) = 70"
proof -
  have "score (calculateMatchScore plainItem plainItem) = 70 \<and>
    score (calculateMatchScore_client plainItem plainItem) = 70"
    by code_simp
  then show ?thesis
    by (simp add: plainItem_def)
qed

lemma locationPoints_nonneg: "locationPoints a b = Some p \<Longrightarrow> 0 \<le> p"
  by (auto simp: locationPoints_def Let_def fmul_def WEIGHTS_location_def
      intro!: toDouble_nonneg mult_nonneg_nonneg split: if_splits)

lemma keywordScore_nonneg: "0 \<le> keywordScore i u"
proof -
  have j: "0 \<le> fdiv (of_nat i) (of_nat u)"
    unfolding fdiv_def by (rule toDouble_nonneg) simp
  have "0 \<le> fdiv (of_nat i) 5"
    unfolding fdiv_def by (rule toDouble_nonneg) simp
  then have "0 \<le> Math_min (fdiv (of_nat i) 5) 1"
    by (simp add: Math_min_def)
  moreover have "0 \<le> toDouble (3 / 10)"
    by (rule toDouble_nonneg) simp
  ultimately have "0 \<le> Math_min (fdiv (of_nat i) 5) 1 * toDouble (3 / 10)"
    by (rule mult_nonneg_nonneg)
  then have "0 \<le> fmul (Math_min (fdiv (of_nat i) 5) 1) (toDouble (3 / 10))"
    unfolding fmul_def by (rule toDouble_nonneg)
  with j have "0 \<le> fadd (fdiv (of_nat i) (of_nat u)) (fmul (Math_min (fdiv (of_nat i) 5) 1) (toDouble (3 / 10)))"
    unfolding fadd_def by (intro toDouble_nonneg add_nonneg_nonneg)
  then have "0 \<le> fadd (fdiv (of_nat i) (of_nat u)) (fmul (Math_min (fdiv (of_nat i) 5) 1) (toDouble (3 / 10))) * WEIGHTS_keywords"
    by (simp add: WEIGHTS_keywords_def)
  then show ?thesis
    unfolding keywordScore_def Let_def fmul_def by (rule toDouble_nonneg)
qed

lemma scoreFrom_range: "0 \<le> score (scoreFrom ch l1 l2 k1 k2 kh) \<and> score (scoreFrom ch l1 l2 k1 k2 kh) \<le> 100"
proof -
  define s1 where "s1 = (if ch then fadd 0 WEIGHTS_category else 0)"
  define s2 where "s2 = (case locationPoints l1 l2 of Some p \<Rightarrow> fadd s1 p | None \<Rightarrow> s1)"
  define s3 where "s3 = (if kh then fadd s2 (keywordScore (length (filter (\<lambda>k. k \<in> set k2) k1)) (length (newSet (k1 @ k2)))) else s2)"
  have 1: "0 \<le> s1"
    unfolding s1_def fadd_def WEIGHTS_category_def by (auto intro!: toDouble_nonneg)
  have 2: "0 \<le> s2"
    unfolding s2_def fadd_def using 1 locationPoints_nonneg
    by (auto split: option.splits intro!: toDouble_nonneg add_nonneg_nonneg)
  have 3: "0 \<le> s3"
    unfolding s3_def fadd_def using 2 keywordScore_nonneg
    by (auto intro!: toDouble_nonneg add_nonneg_nonneg)
  have sc: "score (scoreFrom ch l1 l2 k1 k2 kh) = Math_round (Math_min s3 100)"
    unfolding scoreFrom_def Let_def s1_def s2_def s3_def by simp
  from 3 have "0 \<le> Math_min s3 100" and "Math_min s3 100 \<le> 100"
    by (simp_all add: Math_min_def)
  then have "0 \<le> Math_round (Math_min s3 100)" and "Math_round (Math_min s3 100) \<le> 100"
    unfolding Math_round_def by linarith+
  with sc show ?thesis by simp
qed

lemma calculateMatchScore_range:
  "0 \<le> score (calculateMatchScore item1 item2) \<and> score (calculateMatchScore item1 item2) \<le> 100 \<and>
   0 \<le> score (calculateMatchScore_client item1 item2) \<and> score (calculateMatchScore_client item1 item2) \<le> 100"
  using scoreFrom_range by (simp add: calculateMatchScore_def calculateMatchScore_client_def Let_def)

lemma blank_keywords: "extractKeywords (Some (itemText blankItem)) = [''undefined'', ''undefined'']"
  by code_simp

lemma keywordScore_1_1: "keywordScore (Suc 0) (Suc 0) = 8950904259398861 / 281474976710656"
  by code_simp

lemma round_1_1: "Math_round (Math_min (fadd 0 (8950904259398861 / 281474976710656)) 100) = 32"
  by code_simp

lemma blank_fields: "category blankItem = None" "location blankItem = None"
  "cachedKeywords blankItem = None" "normalizedLocation blankItem = None"
  by (simp_all add: blankItem_def)

lemma newSet_undefined: "newSet [''undefined'', ''undefined''] = [''undefined'']"
  by (simp add: newSet_def setAdd_def)

text \<open>
  C8 on the code: two items without title and description. The template literal prints both
  missing properties as the word undefined, which passes the extractor as a keyword of
  both items, so the score is 32 and not 0.
\<close>

theorem blank_items_score:
  "score (calculateMatchScore blankItem blankItem) = 32 \<and>
   matchedKeywords (details (calculateMatchScore blankItem blankItem)) = [''undefined''] \<and>
   score (calculateMatchScore_client blankItem blankItem) = 32"
  by (simp add: calculateMatchScore_def calculateMatchScore_client_def scoreFrom_def Let_def
      effectiveKeywords_def effectiveLocation_def blank_fields blank_keywords newSet_undefined
      truthy_def normalizeLocation_def normalizeLocation_client_def locationPoints_def
      keywordScore_1_1 round_1_1 setAdd_def newSet_def)

subsection \<open>Match Finder\<close>

lemma collectMatches_filter:
  "collectMatches now scoreOf docs =
     map (\<lambda>d. toCandidate d (scoreOf d))
       (filter (\<lambda>d. \<not> expired now d \<and> MATCH_THRESHOLD \<le> score (scoreOf d)) docs)"
  by (induction docs) (simp_all add: Let_def)

lemma toCandidate_sel [simp]:
  "cItem (toCandidate d r) = d" "cScore (toCandidate d r) = score r"
  "cDetails (toCandidate d r) = details r"
  by (simp_all add: toCandidate_def)

lemma not_expired_iff:
  "(case expiresAt i of None \<Rightarrow> True | Some t \<Rightarrow> t = 0 \<or> now \<le> t) = (\<not> expired now i)"
  by (auto simp: expired_def split: option.splits)

lemma topMatches_client_eq:
  "topMatches_client now newItem docs = topMatches now (calculateMatchScore_client newItem) docs"
  unfolding topMatches_client_def topMatches_def collectMatches_filter filter_map not_expired_iff
  by (simp add: comp_def conj_commute)

lemma set_sortByScore: "set (sortByScore ms) = set ms"
  by (simp add: sortByScore_def)

lemma sorted_sortByScore: "sorted_wrt (\<lambda>a b. cScore b \<le> cScore a) (sortByScore ms)"
proof -
  have "sorted (map (\<lambda>m. - cScore m) (sort_key (\<lambda>m. - cScore m) ms))"
    by (rule sorted_sort_key)
  then show ?thesis
    by (simp add: sortByScore_def sorted_map)
qed

lemma stable_sortByScore:
  "filter (\<lambda>m. cScore m = s) (sortByScore ms) = filter (\<lambda>m. cScore m = s) ms"
  using sort_key_stable [of "\<lambda>m. - cScore m" "- s" ms] by (simp add: sortByScore_def)

lemma prefix_filter_take: "prefix (filter P (take n xs)) (filter P xs)"
proof -
  have "filter P xs = filter P (take n xs) @ filter P (drop n xs)"
    by (metis append_take_drop_id filter_append)
  then show ?thesis
    by (simp add: prefix_def)
qed

text \<open>
  C5, as amended. For every scoring function, invocation time and candidate pool, the
  Match Finder returns at most 3 candidates, each a document of the pool with its own score,
  none scoring below 50 and none whose \<open>expiresAt\<close> is set, is not 0 and is before the
  invocation time; the output is sorted by score descending, and the candidates of one
  score are, in retrieval order, the first of the pool's eligible documents of that score.
  The Match Finder of the client is the one of the triggers at the client's Score
  Calculator.
\<close>

theorem topMatches_ranked:
  "length (topMatches now scoreOf docs) \<le> 3 \<and>
   (\<forall>m \<in> set (topMatches now scoreOf docs).
      50 \<le> cScore m \<and> cItem m \<in> set docs \<and> cScore m = score (scoreOf (cItem m)) \<and>
      (\<forall>t. expiresAt (cItem m) = Some t \<longrightarrow> t = 0 \<or> now \<le> t)) \<and>
   sorted_wrt (\<lambda>a b. cScore b \<le> cScore a) (topMatches now scoreOf docs) \<and>
   (\<forall>s. prefix (map cItem (filter (\<lambda>m. cScore m = s) (topMatches now scoreOf docs)))
          (filter (\<lambda>d. \<not> expired now d \<and> 50 \<le> score (scoreOf d) \<and> score (scoreOf d) = s) docs)) \<and>
   topMatches_client now newItem docs = topMatches now (calculateMatchScore_client newItem) docs"
proof -
  let ?P = "\<lambda>d. \<not> expired now d \<and> MATCH_THRESHOLD \<le> score (scoreOf d)"
  let ?all = "collectMatches now scoreOf docs"
  let ?out = "topMatches now scoreOf docs"
  have len: "length ?out \<le> 3"
    by (simp add: topMatches_def)
  have sub: "set ?out \<subseteq> set ?all"
    unfolding topMatches_def using set_take_subset [of 3 "sortByScore ?all"]
    by (simp add: set_sortByScore)
  have each: "50 \<le> cScore m \<and> cItem m \<in> set docs \<and> cScore m = score (scoreOf (cItem m)) \<and>
      (\<forall>t. expiresAt (cItem m) = Some t \<longrightarrow> t = 0 \<or> now \<le> t)" if "m \<in> set ?out" for m
  proof -
    from that sub have "m \<in> set ?all" by blast
    then obtain d where d: "d \<in> set docs" "?P d" "m = toCandidate d (scoreOf d)"
      by (auto simp: collectMatches_filter)
    then show ?thesis
      by (auto simp: MATCH_THRESHOLD_def expired_def)
  qed
  have sorted: "sorted_wrt (\<lambda>a b. cScore b \<le> cScore a) ?out"
    unfolding topMatches_def using sorted_sortByScore by (rule sorted_wrt_take)
  have stable: "prefix (map cItem (filter (\<lambda>m. cScore m = s) ?out))
          (filter (\<lambda>d. \<not> expired now d \<and> 50 \<le> score (scoreOf d) \<and> score (scoreOf d) = s) docs)" for s
  proof -
    have "prefix (filter (\<lambda>m. cScore m = s) ?out) (filter (\<lambda>m. cScore m = s) (sortByScore ?all))"
      unfolding topMatches_def by (rule prefix_filter_take)
    then have "prefix (filter (\<lambda>m. cScore m = s) ?out) (filter (\<lambda>m. cScore m = s) ?all)"
      by (simp add: stable_sortByScore)
    then have "prefix (map cItem (filter (\<lambda>m. cScore m = s) ?out))
        (map cItem (filter (\<lambda>m. cScore m = s) ?all))"
      by (rule map_mono_prefix)
    moreover have "map cItem (filter (\<lambda>m. cScore m = s) ?all)
        = filter (\<lambda>d. \<not> expired now d \<and> 50 \<le> score (scoreOf d) \<and> score (scoreOf d) = s) docs"
      by (simp add: collectMatches_filter filter_map comp_def MATCH_THRESHOLD_def conj_commute conj_left_commute)
    ultimately show ?thesis by simp
  qed
  from len each sorted stable topMatches_client_eq show ?thesis
    by blast
qed

theorem topMatches_ranked_witness:
  "map (\<lambda>m. (itemId (cItem m), cScore m))
     (topMatches 1000 (calculateMatchScore (enriched lostWallet)) [foundPurse, stalePurse, zeroPurse])
     = [(''F2'', 70), (''F4'', 70)] \<and>
   length (topMatches 1000 (calculateMatchScore (enriched lostWallet)) [foundPurse, stalePurse, zeroPurse]) \<le> 3 \<and>
   50 \<le> cScore (hd (topMatches 1000 (calculateMatchScore (enriched lostWallet)) [foundPurse, stalePurse, zeroPurse])) \<and>
   sorted_wrt (\<lambda>a b. cScore b \<le> cScore a)
     (topMatches 1000 (calculateMatchScore (enriched lostWallet)) [foundPurse, stalePurse, zeroPurse])"
proof -
  let ?out = "topMatches 1000 (calculateMatchScore (enriched lostWallet)) [foundPurse, stalePurse, zeroPurse]"
  have ev: "map (\<lambda>m. (itemId (cItem m), cScore m)) ?out = [(''F2'', 70), (''F4'', 70)]"
    by code_simp
  then have "?out \<noteq> []" by auto
  then have "hd ?out \<in> set ?out" by simp
  with ev topMatches_ranked [of 1000 "calculateMatchScore (enriched lostWallet)" "[foundPurse, stalePurse, zeroPurse]"]
  show ?thesis by blast
qed

text \<open>The claim as stated fails at the expiry time 0, which the guard
  \<^verbatim>\<open>item.expiresAt && ...\<close> reads as no expiry time: the document stays a candidate at
  every later time.\<close>

theorem topMatches_expiry_counterexample:
  "expiresAt zeroPurse = Some 0 \<and> (0::int) < 1000 \<and>
   map (\<lambda>m. itemId (cItem m))
     (topMatches 1000 (calculateMatchScore (enriched lostWallet)) [zeroPurse]) = [''F4''] \<and>
   map (\<lambda>m. itemId (cItem m)) (topMatches_client 1000 lostWallet [zeroPurse]) = [''F4'']"
  by code_simp

subsection \<open>Store calls and the Notification Dispatcher\<close>

lemma storeCall_ok: "failAfter w = None \<Longrightarrow> storeCall call w = call w"
  by (simp add: storeCall_def)

lemma addNotification_ok:
  "failAfter w = None \<Longrightarrow>
     addNotification n w = (Inr (), w\<lparr>notifications := notifications w @ [n]\<rparr>)"
  by (simp add: addNotification_def storeCall_ok)

lemma addMatch_ok:
  "failAfter w = None \<Longrightarrow> addMatch r w = (Inr (), w\<lparr>matches := matches w @ [r]\<rparr>)"
  by (simp add: addMatch_def storeCall_ok)

lemma matchExists_ok:
  "failAfter w = None \<Longrightarrow> matchExists a b w = (Inr (matchesFor a b w \<noteq> []), w)"
  by (cases "matchesFor a b w") (simp_all add: matchExists_def storeCall_ok matchesFor_def)

lemma matchExists_client_ok:
  "failAfter w = None \<Longrightarrow> matchExists_client a b w = (Inr (matchesFor a b w \<noteq> []), w)"
  by (simp add: matchExists_client_def storeCall_ok matchesFor_def)

lemma createNotification_ok:
  "failAfter w = None \<Longrightarrow>
     createNotification l f sc md w =
       (if uid l = uid f then (Inr [], w)
        else (Inr [lostNotif l f sc md],
              w\<lparr>notifications := notifications w @ [lostNotif l f sc md],
                matches := matches w @ [newMatchRecord l f sc md]\<rparr>))"
  by (simp add: createNotification_def addNotification_ok addMatch_ok)

lemma createMatchNotification_ok:
  "failAfter w = None \<Longrightarrow>
     createMatchNotification l f sc md w =
       (if uid l = uid f then (Inr [], w)
        else (Inr [lostNotif l f sc md, foundNotif l f sc md],
              w\<lparr>notifications := notifications w @ [lostNotif l f sc md, foundNotif l f sc md],
                matches := matches w @ [newMatchRecord l f sc md]\<rparr>))"
  by (simp add: createMatchNotification_def addNotification_ok addMatch_ok)




subsection \<open>The notifying loop\<close>

lemma addRecords_sel [simp]:
  "failAfter (addRecords ns r w) = failAfter w"
  "items (addRecords ns r w) = items w"
  "notifications (addRecords ns r w) = notifications w @ ns"
  "matches (addRecords ns r w) = matches w @ [r]"
  by (simp_all add: addRecords_def)

lemma matchesFor_addRecords:
  "matchesFor a b (addRecords ns r w) =
     matchesFor a b w @ (if lostItemId r = a \<and> foundItemId r = b then [r] else [])"
  by (simp add: matchesFor_def)

lemma notificationsFor_addRecords:
  "notificationsFor a b (addRecords ns r w) =
     notificationsFor a b w @ filter (\<lambda>n. n_lostItemId n = a \<and> n_foundItemId n = b) ns"
  by (simp add: notificationsFor_def)

lemma newMatchRecord_ids [simp]:
  "lostItemId (newMatchRecord l f sc md) = itemId l"
  "foundItemId (newMatchRecord l f sc md) = itemId f"
  by (simp_all add: newMatchRecord_def)

text \<open>One round of the loop in a store that rejects nothing.\<close>

lemma notifyLoop_Cons_ok:
  assumes G: "\<And>a b w. failAfter w = None \<Longrightarrow> guard a b w = (Inr (matchesFor a b w \<noteq> []), w)"
    and D: "\<And>l f sc md w. failAfter w = None \<Longrightarrow>
              dispatch l f sc md w =
                (if uid l = uid f then (Inr [], w)
                 else (Inr (ns l f sc md), addRecords (ns l f sc md) (newMatchRecord l f sc md) w))"
    and ok: "failAfter w = None"
  shows "notifyLoop orient guard dispatch (m # ms) c w =
     (if matchesFor (itemId (fst (orient m))) (itemId (snd (orient m))) w \<noteq> []
      then notifyLoop orient guard dispatch ms c w
      else if uid (fst (orient m)) = uid (snd (orient m))
      then notifyLoop orient guard dispatch ms (c + 1) w
      else notifyLoop orient guard dispatch ms (c + 1)
             (addRecords (ns (fst (orient m)) (snd (orient m)) (cScore m) (cDetails m))
                (newMatchRecord (fst (orient m)) (snd (orient m)) (cScore m) (cDetails m)) w))"
  using ok by (simp add: G D)

lemma notifyLoop_dedup:
  assumes G: "\<And>a b w. failAfter w = None \<Longrightarrow> guard a b w = (Inr (matchesFor a b w \<noteq> []), w)"
    and D: "\<And>l f sc md w. failAfter w = None \<Longrightarrow>
              dispatch l f sc md w =
                (if uid l = uid f then (Inr [], w)
                 else (Inr (ns l f sc md), addRecords (ns l f sc md) (newMatchRecord l f sc md) w))"
    and len: "\<And>l f sc md. length (ns l f sc md) = k"
    and ids: "\<And>l f sc md n. n \<in> set (ns l f sc md) \<Longrightarrow>
                n_lostItemId n = itemId l \<and> n_foundItemId n = itemId f"
    and ok: "failAfter w = None"
    and inv: "(matchesFor a b w = [] \<and> notificationsFor a b w = []) \<or>
              (length (matchesFor a b w) = 1 \<and> length (notificationsFor a b w) = k)"
  shows "\<exists>c' w'. notifyLoop orient guard dispatch ms c w = (Inr c', w') \<and>
           failAfter w' = None \<and> items w' = items w \<and>
           ((matchesFor a b w' = [] \<and> notificationsFor a b w' = []) \<or>
            (length (matchesFor a b w') = 1 \<and> length (notificationsFor a b w') = k)) \<and>
           (matchesFor a b w \<noteq> [] \<longrightarrow>
              matchesFor a b w' = matchesFor a b w \<and>
              notificationsFor a b w' = notificationsFor a b w) \<and>
           ((\<exists>m \<in> set ms. itemId (fst (orient m)) = a \<and> itemId (snd (orient m)) = b \<and>
                            uid (fst (orient m)) \<noteq> uid (snd (orient m))) \<longrightarrow>
              matchesFor a b w' \<noteq> [])"
  using ok inv
proof (induction ms arbitrary: c w)
  case Nil
  then show ?case by simp
next
  case (Cons m ms)
  let ?l = "fst (orient m)" and ?f = "snd (orient m)"
  let ?ns = "ns ?l ?f (cScore m) (cDetails m)"
  let ?w1 = "addRecords ?ns (newMatchRecord ?l ?f (cScore m) (cDetails m)) w"
  note step = notifyLoop_Cons_ok [of guard dispatch ns, OF G D Cons.prems(1), of orient m ms c]
  have keep: "filter (\<lambda>n. n_lostItemId n = a \<and> n_foundItemId n = b) ?ns =
      (if itemId ?l = a \<and> itemId ?f = b then ?ns else [])"
    using ids [of _ ?l ?f "cScore m" "cDetails m"] by (auto simp: filter_empty_conv filter_id_conv)
  show ?case
  proof (cases "matchesFor (itemId ?l) (itemId ?f) w \<noteq> []")
    case True
    from Cons.IH [OF Cons.prems, of c] obtain c' w' where
      r: "notifyLoop orient guard dispatch ms c w = (Inr c', w')" "failAfter w' = None"
        "items w' = items w"
        "(matchesFor a b w' = [] \<and> notificationsFor a b w' = []) \<or>
         (length (matchesFor a b w') = 1 \<and> length (notificationsFor a b w') = k)"
        "matchesFor a b w \<noteq> [] \<longrightarrow>
           matchesFor a b w' = matchesFor a b w \<and> notificationsFor a b w' = notificationsFor a b w"
        "(\<exists>m \<in> set ms. itemId (fst (orient m)) = a \<and> itemId (snd (orient m)) = b \<and>
                            uid (fst (orient m)) \<noteq> uid (snd (orient m))) \<longrightarrow>
              matchesFor a b w' \<noteq> []"
      by blast
    from True r show ?thesis
      by (auto simp add: step simp del: notifyLoop.simps)
  next
    case False
    show ?thesis
    proof (cases "uid ?l = uid ?f")
      case True
      from Cons.IH [OF Cons.prems, of "c + 1"] obtain c' w' where
        r: "notifyLoop orient guard dispatch ms (c + 1) w = (Inr c', w')" "failAfter w' = None"
          "items w' = items w"
          "(matchesFor a b w' = [] \<and> notificationsFor a b w' = []) \<or>
           (length (matchesFor a b w') = 1 \<and> length (notificationsFor a b w') = k)"
          "matchesFor a b w \<noteq> [] \<longrightarrow>
             matchesFor a b w' = matchesFor a b w \<and> notificationsFor a b w' = notificationsFor a b w"
          "(\<exists>m \<in> set ms. itemId (fst (orient m)) = a \<and> itemId (snd (orient m)) = b \<and>
                              uid (fst (orient m)) \<noteq> uid (snd (orient m))) \<longrightarrow>
                matchesFor a b w' \<noteq> []"
        by blast
      from False True r show ?thesis
        by (auto simp add: step simp del: notifyLoop.simps)
    next
      case diff: False
      have ok1: "failAfter ?w1 = None"
        using Cons.prems(1) by simp
      have inv1: "(matchesFor a b ?w1 = [] \<and> notificationsFor a b ?w1 = []) \<or>
          (length (matchesFor a b ?w1) = 1 \<and> length (notificationsFor a b ?w1) = k)"
        using Cons.prems(2) False len [of ?l ?f "cScore m" "cDetails m"]
        by (auto simp: matchesFor_addRecords notificationsFor_addRecords keep)
      from Cons.IH [OF ok1 inv1, of "c + 1"] obtain c' w' where
        r: "notifyLoop orient guard dispatch ms (c + 1) ?w1 = (Inr c', w')" "failAfter w' = None"
          "items w' = items ?w1"
          "(matchesFor a b w' = [] \<and> notificationsFor a b w' = []) \<or>
           (length (matchesFor a b w') = 1 \<and> length (notificationsFor a b w') = k)"
          "matchesFor a b ?w1 \<noteq> [] \<longrightarrow>
             matchesFor a b w' = matchesFor a b ?w1 \<and> notificationsFor a b w' = notificationsFor a b ?w1"
          "(\<exists>m \<in> set ms. itemId (fst (orient m)) = a \<and> itemId (snd (orient m)) = b \<and>
                              uid (fst (orient m)) \<noteq> uid (snd (orient m))) \<longrightarrow>
                matchesFor a b w' \<noteq> []"
        by blast
      have same: "matchesFor a b w \<noteq> [] \<Longrightarrow>
          matchesFor a b ?w1 = matchesFor a b w \<and> notificationsFor a b ?w1 = notificationsFor a b w"
        using False by (auto simp: matchesFor_addRecords notificationsFor_addRecords keep)
      have hit: "itemId ?l = a \<and> itemId ?f = b \<Longrightarrow> matchesFor a b ?w1 \<noteq> []"
        by (simp add: matchesFor_addRecords)
      from False diff r same hit show ?thesis
        by (auto simp add: step simp del: notifyLoop.simps)
    qed
  qed
qed


text \<open>A pair that has a match record gets nothing more from the loop.\<close>

lemma notifyLoop_keeps:
  assumes G: "\<And>a b w. failAfter w = None \<Longrightarrow> guard a b w = (Inr (matchesFor a b w \<noteq> []), w)"
    and D: "\<And>l f sc md w. failAfter w = None \<Longrightarrow>
              dispatch l f sc md w =
                (if uid l = uid f then (Inr [], w)
                 else (Inr (ns l f sc md), addRecords (ns l f sc md) (newMatchRecord l f sc md) w))"
    and ids: "\<And>l f sc md n. n \<in> set (ns l f sc md) \<Longrightarrow>
                n_lostItemId n = itemId l \<and> n_foundItemId n = itemId f"
    and ok: "failAfter w = None"
    and rec: "matchesFor a b w \<noteq> []"
  shows "\<exists>c' w'. notifyLoop orient guard dispatch ms c w = (Inr c', w') \<and>
           failAfter w' = None \<and> items w' = items w \<and>
           matchesFor a b w' = matchesFor a b w \<and>
           notificationsFor a b w' = notificationsFor a b w"
  using ok rec
proof (induction ms arbitrary: c w)
  case Nil
  then show ?case by simp
next
  case (Cons m ms)
  let ?l = "fst (orient m)" and ?f = "snd (orient m)"
  let ?ns = "ns ?l ?f (cScore m) (cDetails m)"
  let ?w1 = "addRecords ?ns (newMatchRecord ?l ?f (cScore m) (cDetails m)) w"
  note step = notifyLoop_Cons_ok [of guard dispatch ns, OF G D Cons.prems(1), of orient m ms c]
  have keep: "filter (\<lambda>n. n_lostItemId n = a \<and> n_foundItemId n = b) ?ns =
      (if itemId ?l = a \<and> itemId ?f = b then ?ns else [])"
    using ids [of _ ?l ?f "cScore m" "cDetails m"] by (auto simp: filter_empty_conv filter_id_conv)
  show ?case
  proof (cases "matchesFor (itemId ?l) (itemId ?f) w \<noteq> [] \<or> uid ?l = uid ?f")
    case True
    from Cons.IH [OF Cons.prems, of c] Cons.IH [OF Cons.prems, of "c + 1"] True show ?thesis
      by (auto simp add: step simp del: notifyLoop.simps)
  next
    case False
    then have other: "\<not> (itemId ?l = a \<and> itemId ?f = b)"
      using Cons.prems(2) by auto
    have ok1: "failAfter ?w1 = None"
      using Cons.prems(1) by simp
    have same: "matchesFor a b ?w1 = matchesFor a b w" "notificationsFor a b ?w1 = notificationsFor a b w"
      using other by (auto simp: matchesFor_addRecords notificationsFor_addRecords keep)
    with Cons.prems(2) have rec1: "matchesFor a b ?w1 \<noteq> []"
      by simp
    from Cons.IH [OF ok1 rec1, of "c + 1"] False same show ?thesis
      by (auto simp add: step simp del: notifyLoop.simps)
  qed
qed

subsection \<open>The entry points in a store that rejects nothing\<close>

lemma queryOpenItems_ok:
  "failAfter w = None \<Longrightarrow>
     queryOpenItems ty w = (Inr (filter (\<lambda>i. itemType i = ty \<and> status i = Open) (items w)), w)"
  by (simp add: queryOpenItems_def storeCall_ok)

lemma updateEnrichment_ok:
  "failAfter w = None \<Longrightarrow> docId \<in> set (map itemId (items w)) \<Longrightarrow>
     updateEnrichment docId kws loc w =
       (Inr (), w\<lparr>items := map (setEnrichment docId kws loc) (items w)\<rparr>)"
  by (simp add: updateEnrichment_def storeCall_ok)

lemma setEnrichment_sel [simp]:
  "itemId (setEnrichment docId kws loc i) = itemId i"
  "itemType (setEnrichment docId kws loc i) = itemType i"
  "status (setEnrichment docId kws loc i) = status i"
  "uid (setEnrichment docId kws loc i) = uid i"
  by (simp_all add: setEnrichment_def)

lemma observers_items [simp]:
  "matchesFor a b (w\<lparr>items := its\<rparr>) = matchesFor a b w"
  "notificationsFor a b (w\<lparr>items := its\<rparr>) = notificationsFor a b w"
  by (simp_all add: matchesFor_def notificationsFor_def)

lemma topMatches_items:
  "m \<in> set (topMatches now scoreOf docs) \<Longrightarrow> cItem m \<in> set docs"
proof -
  assume "m \<in> set (topMatches now scoreOf docs)"
  then have "m \<in> set (collectMatches now scoreOf docs)"
    unfolding topMatches_def by (auto dest: in_set_takeD simp: set_sortByScore)
  then show ?thesis
    by (auto simp: collectMatches_filter)
qed

text \<open>The dispatchers in the form the loop lemmas take.\<close>

lemma createMatchNotification_rec:
  "failAfter w = None \<Longrightarrow>
     createMatchNotification l f sc md w =
       (if uid l = uid f then (Inr [], w)
        else (Inr [lostNotif l f sc md, foundNotif l f sc md],
              addRecords [lostNotif l f sc md, foundNotif l f sc md] (newMatchRecord l f sc md) w))"
  by (simp add: createMatchNotification_ok addRecords_def)

lemma createNotification_rec:
  "failAfter w = None \<Longrightarrow>
     createNotification l f sc md w =
       (if uid l = uid f then (Inr [], w)
        else (Inr [lostNotif l f sc md],
              addRecords [lostNotif l f sc md] (newMatchRecord l f sc md) w))"
  by (simp add: createNotification_ok addRecords_def)

lemma findMatches_ok:
  assumes "failAfter w = None"
  shows "findMatches now newItem w =
     notifyLoop (byType newItem) matchExists_client createMatchNotification
       (topMatches_client now newItem
          (filter (\<lambda>i. itemType i = (if itemType newItem = Lost then Found else Lost) \<and>
                        status i = Open) (items w)))
       0 w"
  using assms by (simp add: findMatches_def queryOpenItems_ok)

lemma onLostItemCreated_ok:
  assumes "failAfter w = None" "itemType newItem = Lost"
    "itemId newItem \<in> set (map itemId (items w))"
  shows "onLostItemCreated now newItem w =
     (case notifyLoop (lostFirst newItem) matchExists createNotification
             (topMatches now (calculateMatchScore (enriched newItem))
                (filter (\<lambda>i. itemType i = Found \<and> status i = Open) (enrichedItems newItem w)))
             0 (w\<lparr>items := enrichedItems newItem w\<rparr>) of
        (Inl e, w3) \<Rightarrow> (Inl e, w3)
      | (Inr count, w3) \<Rightarrow> (Inr (Some count), w3))"
  using assms
  by (simp add: onLostItemCreated_def updateEnrichment_ok queryOpenItems_ok enrichedItems_def
      eta_contract_eq)

lemma onFoundItemCreated_ok:
  assumes "failAfter w = None" "itemType newItem = Found"
    "itemId newItem \<in> set (map itemId (items w))"
  shows "onFoundItemCreated now newItem w =
     (case notifyLoop (foundLast newItem) matchExists createNotification
             (topMatches now (\<lambda>lostItem. calculateMatchScore lostItem (enriched newItem))
                (filter (\<lambda>i. itemType i = Lost \<and> status i = Open) (enrichedItems newItem w)))
             0 (w\<lparr>items := enrichedItems newItem w\<rparr>) of
        (Inl e, w3) \<Rightarrow> (Inl e, w3)
      | (Inr count, w3) \<Rightarrow> (Inr (Some count), w3))"
  using assms
  by (simp add: onFoundItemCreated_def updateEnrichment_ok queryOpenItems_ok enrichedItems_def)

lemma enrichedItems_ids [simp]: "map itemId (enrichedItems newItem w) = map itemId (items w)"
  by (simp add: enrichedItems_def comp_def)

lemma bothNotif_ids:
  "n \<in> set [lostNotif l f sc md, foundNotif l f sc md] \<Longrightarrow>
     n_lostItemId n = itemId l \<and> n_foundItemId n = itemId f"
  by (auto simp: lostNotif_def foundNotif_def)

text \<open>A pass in a store that rejects nothing: the trigger skips the item, or the pass is the
  loop of its call site over its ranked pairs.\<close>

lemma runEntry_cases:
  assumes ok: "failAfter w = None"
    and doc: "updatesDocument e x \<longrightarrow> itemId x \<in> set (map itemId (items w))"
  obtains (skip) "runEntry e now x w = (Inr None, w)" "rankedPairs e now x w = []"
      "e \<noteq> ClientCall" "\<not> updatesDocument e x"
  | (loop) orient guard dispatch ns ms w0 where
      "e = ClientCall \<or> updatesDocument e x"
      "runEntry e now x w =
         (case notifyLoop orient guard dispatch ms 0 w0 of
            (Inl er, w3) \<Rightarrow> (Inl er, w3)
          | (Inr count, w3) \<Rightarrow> (Inr (Some count), w3))"
      "rankedPairs e now x w = map orient ms"
      "failAfter w0 = None" "map itemId (items w0) = map itemId (items w)"
      "notifications w0 = notifications w" "matches w0 = matches w"
      "\<And>a b w. failAfter w = None \<Longrightarrow> guard a b w = (Inr (matchesFor a b w \<noteq> []), w)"
      "\<And>l f sc md w. failAfter w = None \<Longrightarrow>
              dispatch l f sc md w =
                (if uid l = uid f then (Inr [], w)
                 else (Inr (ns l f sc md), addRecords (ns l f sc md) (newMatchRecord l f sc md) w))"
      "\<And>l f sc md. length (ns l f sc md) = notificationsPerMatch e"
      "\<And>l f sc md n. n \<in> set (ns l f sc md) \<Longrightarrow>
                n_lostItemId n = itemId l \<and> n_foundItemId n = itemId f"
proof (cases e)
  case ClientCall
  show ?thesis
  proof (rule loop [where guard = matchExists_client and dispatch = createMatchNotification
        and ns = "\<lambda>l f sc md. [lostNotif l f sc md, foundNotif l f sc md]"
        and orient = "byType x" and ?w0.0 = w
        and ms = "topMatches_client now x
          (filter (\<lambda>i. itemType i = (if itemType x = Lost then Found else Lost) \<and>
                        status i = Open) (items w))"])
    show "runEntry e now x w =
         (case notifyLoop (byType x) matchExists_client createMatchNotification
              (topMatches_client now x
                (filter (\<lambda>i. itemType i = (if itemType x = Lost then Found else Lost) \<and>
                        status i = Open) (items w))) 0 w of
            (Inl er, w3) \<Rightarrow> (Inl er, w3)
          | (Inr count, w3) \<Rightarrow> (Inr (Some count), w3))"
      using ok ClientCall by (simp add: runEntry_def findMatches_ok)
  qed (simp_all add: ClientCall rankedPairs_def ok matchExists_client_ok
      createMatchNotification_rec notificationsPerMatch_def bothNotif_ids)
next
  case LostTrigger
  show ?thesis
  proof (cases "itemType x = Lost")
    case True
    with LostTrigger doc have there: "itemId x \<in> set (map itemId (items w))"
      by (simp add: updatesDocument_def)
    show ?thesis
    proof (rule loop [where guard = matchExists and dispatch = createNotification
          and ns = "\<lambda>l f sc md. [lostNotif l f sc md]"
          and orient = "lostFirst x" and ?w0.0 = "w\<lparr>items := enrichedItems x w\<rparr>"
          and ms = "topMatches now (calculateMatchScore (enriched x))
                (filter (\<lambda>i. itemType i = Found \<and> status i = Open) (enrichedItems x w))"])
      show "runEntry e now x w =
         (case notifyLoop (lostFirst x) matchExists createNotification
              (topMatches now (calculateMatchScore (enriched x))
                (filter (\<lambda>i. itemType i = Found \<and> status i = Open) (enrichedItems x w)))
              0 (w\<lparr>items := enrichedItems x w\<rparr>) of
            (Inl er, w3) \<Rightarrow> (Inl er, w3)
          | (Inr count, w3) \<Rightarrow> (Inr (Some count), w3))"
        using LostTrigger by (simp add: runEntry_def onLostItemCreated_ok [OF ok True there])
      show "rankedPairs e now x w = map (lostFirst x) (topMatches now (calculateMatchScore (enriched x))
                (filter (\<lambda>i. itemType i = Found \<and> status i = Open) (enrichedItems x w)))"
        using LostTrigger True by (simp add: rankedPairs_def)
      show "failAfter (w\<lparr>items := enrichedItems x w\<rparr>) = None"
        using ok by simp
      show "\<And>l f sc md. length [lostNotif l f sc md] = notificationsPerMatch e"
        using LostTrigger by (simp add: notificationsPerMatch_def)
    qed (simp_all add: matchExists_ok createNotification_rec lostNotif_def updatesDocument_def LostTrigger True)
  next
    case False
    with LostTrigger show ?thesis
      by (intro skip) (simp_all add: runEntry_def rankedPairs_def onLostItemCreated_def updatesDocument_def)
  qed
next
  case FoundTrigger
  show ?thesis
  proof (cases "itemType x = Found")
    case True
    with FoundTrigger doc have there: "itemId x \<in> set (map itemId (items w))"
      by (simp add: updatesDocument_def)
    show ?thesis
    proof (rule loop [where guard = matchExists and dispatch = createNotification
          and ns = "\<lambda>l f sc md. [lostNotif l f sc md]"
          and orient = "foundLast x" and ?w0.0 = "w\<lparr>items := enrichedItems x w\<rparr>"
          and ms = "topMatches now (\<lambda>lostItem. calculateMatchScore lostItem (enriched x))
                (filter (\<lambda>i. itemType i = Lost \<and> status i = Open) (enrichedItems x w))"])
      show "runEntry e now x w =
         (case notifyLoop (foundLast x) matchExists createNotification
              (topMatches now (\<lambda>lostItem. calculateMatchScore lostItem (enriched x))
                (filter (\<lambda>i. itemType i = Lost \<and> status i = Open) (enrichedItems x w)))
              0 (w\<lparr>items := enrichedItems x w\<rparr>) of
            (Inl er, w3) \<Rightarrow> (Inl er, w3)
          | (Inr count, w3) \<Rightarrow> (Inr (Some count), w3))"
        using FoundTrigger by (simp add: runEntry_def onFoundItemCreated_ok [OF ok True there])
      show "rankedPairs e now x w = map (foundLast x)
              (topMatches now (\<lambda>lostItem. calculateMatchScore lostItem (enriched x))
                (filter (\<lambda>i. itemType i = Lost \<and> status i = Open) (enrichedItems x w)))"
        using FoundTrigger True by (simp add: rankedPairs_def)
      show "failAfter (w\<lparr>items := enrichedItems x w\<rparr>) = None"
        using ok by simp
      show "\<And>l f sc md. length [lostNotif l f sc md] = notificationsPerMatch e"
        using FoundTrigger by (simp add: notificationsPerMatch_def)
    qed (simp_all add: matchExists_ok createNotification_rec lostNotif_def updatesDocument_def FoundTrigger True)
  next
    case False
    with FoundTrigger show ?thesis
      by (intro skip) (simp_all add: runEntry_def rankedPairs_def onFoundItemCreated_def updatesDocument_def)
  qed
qed

lemma runEntry_first:
  assumes ok: "failAfter w = None"
    and doc: "updatesDocument e x \<longrightarrow> itemId x \<in> set (map itemId (items w))"
    and fresh: "matchesFor a b w = []" "notificationsFor a b w = []"
    and ranked: "(l, f) \<in> set (rankedPairs e now x w)" "itemId l = a" "itemId f = b"
      "uid l \<noteq> uid f"
  shows "\<exists>c w'. runEntry e now x w = (Inr c, w') \<and> failAfter w' = None \<and>
           map itemId (items w') = map itemId (items w) \<and>
           length (matchesFor a b w') = 1 \<and>
           length (notificationsFor a b w') = notificationsPerMatch e"
  using ok doc
proof (cases rule: runEntry_cases [where now = now])
  case skip
  with ranked(1) show ?thesis by simp
next
  case (loop orient guard dispatch ns ms w0)
  from fresh loop(6,7) have inv: "(matchesFor a b w0 = [] \<and> notificationsFor a b w0 = []) \<or>
      (length (matchesFor a b w0) = 1 \<and> length (notificationsFor a b w0) = notificationsPerMatch e)"
    by (simp add: matchesFor_def notificationsFor_def)
  from ranked(1) loop(3) obtain m where "m \<in> set ms" "orient m = (l, f)"
    by auto
  with ranked(2-4) have cand: "\<exists>m \<in> set ms. itemId (fst (orient m)) = a \<and>
      itemId (snd (orient m)) = b \<and> uid (fst (orient m)) \<noteq> uid (snd (orient m))"
    by (intro bexI [of _ m]) simp_all
  have "\<exists>c' w'. notifyLoop orient guard dispatch ms 0 w0 = (Inr c', w') \<and>
           failAfter w' = None \<and> items w' = items w0 \<and>
           ((matchesFor a b w' = [] \<and> notificationsFor a b w' = []) \<or>
            (length (matchesFor a b w') = 1 \<and>
             length (notificationsFor a b w') = notificationsPerMatch e)) \<and>
           (matchesFor a b w0 \<noteq> [] \<longrightarrow>
              matchesFor a b w' = matchesFor a b w0 \<and>
              notificationsFor a b w' = notificationsFor a b w0) \<and>
           ((\<exists>m \<in> set ms. itemId (fst (orient m)) = a \<and> itemId (snd (orient m)) = b \<and>
                            uid (fst (orient m)) \<noteq> uid (snd (orient m))) \<longrightarrow>
              matchesFor a b w' \<noteq> [])"
    by (rule notifyLoop_dedup [where ns = ns, OF loop(8) loop(9) loop(10) loop(11) loop(4) inv])
  with cand obtain c' w' where
    r: "notifyLoop orient guard dispatch ms 0 w0 = (Inr c', w')" "failAfter w' = None"
      "items w' = items w0"
      "(matchesFor a b w' = [] \<and> notificationsFor a b w' = []) \<or>
            (length (matchesFor a b w') = 1 \<and>
             length (notificationsFor a b w') = notificationsPerMatch e)"
      "matchesFor a b w' \<noteq> []"
    by blast
  from r loop(2,5) show ?thesis
    by auto
qed

lemma runEntry_keeps:
  assumes ok: "failAfter w = None"
    and doc: "updatesDocument e x \<longrightarrow> itemId x \<in> set (map itemId (items w))"
    and rec: "matchesFor a b w \<noteq> []"
  shows "\<exists>c w'. runEntry e now x w = (Inr c, w') \<and> failAfter w' = None \<and>
           map itemId (items w') = map itemId (items w) \<and>
           matchesFor a b w' = matchesFor a b w \<and>
           notificationsFor a b w' = notificationsFor a b w"
  using ok doc
proof (cases rule: runEntry_cases [where now = now])
  case skip
  with ok show ?thesis by simp
next
  case (loop orient guard dispatch ns ms w0)
  from loop(6,7) have same: "matchesFor a b w0 = matchesFor a b w"
    "notificationsFor a b w0 = notificationsFor a b w"
    by (simp_all add: matchesFor_def notificationsFor_def)
  with rec have rec0: "matchesFor a b w0 \<noteq> []"
    by simp
  have "\<exists>c' w'. notifyLoop orient guard dispatch ms 0 w0 = (Inr c', w') \<and>
           failAfter w' = None \<and> items w' = items w0 \<and>
           matchesFor a b w' = matchesFor a b w0 \<and>
           notificationsFor a b w' = notificationsFor a b w0"
    by (rule notifyLoop_keeps [where ns = ns, OF loop(8) loop(9) loop(11) loop(4) rec0])
  with same loop(2,5) show ?thesis
    by auto
qed



lemma two_passes:
  assumes ok: "failAfter w = None"
    and doc1: "updatesDocument e1 x \<longrightarrow> itemId x \<in> set (map itemId (items w))"
    and doc2: "updatesDocument e2 y \<longrightarrow> itemId y \<in> set (map itemId (items w))"
    and fresh: "matchesFor a b w = []" "notificationsFor a b w = []"
    and ranked: "(l, f) \<in> set (rankedPairs e1 t1 x w)" "itemId l = a" "itemId f = b"
      "uid l \<noteq> uid f"
  shows "\<exists>c1 w1 c2 w2.
           runEntry e1 t1 x w = (Inr c1, w1) \<and> runEntry e2 t2 y w1 = (Inr c2, w2) \<and>
           matchExists a b w1 = (Inr True, w1) \<and> matchExists_client a b w1 = (Inr True, w1) \<and>
           length (matchesFor a b w2) = 1 \<and>
           length (notificationsFor a b w2) = notificationsPerMatch e1 \<and>
           matchesFor a b w2 = matchesFor a b w1 \<and>
           notificationsFor a b w2 = notificationsFor a b w1"
proof -
  from runEntry_first [OF ok doc1 fresh ranked] obtain c1 w1 where
    r1: "runEntry e1 t1 x w = (Inr c1, w1)" "failAfter w1 = None"
      "map itemId (items w1) = map itemId (items w)"
      "length (matchesFor a b w1) = 1" "length (notificationsFor a b w1) = notificationsPerMatch e1"
    by blast
  from r1(4) have rec: "matchesFor a b w1 \<noteq> []"
    by auto
  from doc2 r1(3) have doc: "updatesDocument e2 y \<longrightarrow> itemId y \<in> set (map itemId (items w1))"
    by simp
  from runEntry_keeps [OF r1(2) doc rec, of t2] obtain c2 w2 where
    r2: "runEntry e2 t2 y w1 = (Inr c2, w2)" "matchesFor a b w2 = matchesFor a b w1"
      "notificationsFor a b w2 = notificationsFor a b w1"
    by blast
  from r1 r2 rec show ?thesis
    by (simp add: matchExists_ok matchExists_client_ok)
qed



text \<open>The passes over the example stores.\<close>

lemma campus_fields:
  "failAfter campus = None" "notifications campus = []" "matches campus = []"
  "items campus = [lostWallet, foundPurse, stalePurse, zeroPurse]"
  by (simp_all add: campus_def)

lemma example_fields:
  "itemId lostWallet = ''L1''" "itemType lostWallet = Lost" "uid lostWallet = ''alice''"
  "status lostWallet = Open"
  "itemId foundPurse = ''F2''" "itemType foundPurse = Found" "uid foundPurse = ''carol''"
  "status foundPurse = Open"
  "itemId stalePurse = ''F3''" "itemType stalePurse = Found" "uid stalePurse = ''carol''"
  "status stalePurse = Open"
  "itemId zeroPurse = ''F4''" "itemType zeroPurse = Found" "uid zeroPurse = ''erin''"
  "status zeroPurse = Open"
  by (simp_all add: lostWallet_def foundPurse_def stalePurse_def zeroPurse_def)

lemma campus_pool:
  "filter (\<lambda>i. itemType i = Found \<and> status i = Open) (items campus)
     = [foundPurse, stalePurse, zeroPurse]"
  by (simp add: campus_fields example_fields)

lemma campus_top_client:
  "topMatches_client 1000 lostWallet [foundPurse, stalePurse, zeroPurse] =
     [toCandidate foundPurse (calculateMatchScore_client lostWallet foundPurse),
      toCandidate zeroPurse (calculateMatchScore_client lostWallet zeroPurse)]"
  by code_simp

lemma campus_top_server:
  "topMatches 1000 (calculateMatchScore (enriched lostWallet)) [foundPurse, stalePurse, zeroPurse] =
     [toCandidate foundPurse (calculateMatchScore (enriched lostWallet) foundPurse),
      toCandidate zeroPurse (calculateMatchScore (enriched lostWallet) zeroPurse)]"
  by code_simp

lemma campus_pool_lost:
  "filter (\<lambda>i. itemType i = Lost \<and> status i = Open) (items campus) = [lostWallet]"
  by (simp add: campus_fields example_fields)

lemma campus_top_found:
  "topMatches 1000 (\<lambda>lostItem. calculateMatchScore lostItem (enriched foundPurse)) [lostWallet] =
     [toCandidate lostWallet (calculateMatchScore lostWallet (enriched foundPurse))]"
  by code_simp


lemma annex_fields:
  "failAfter annex = None" "notifications annex = []" "matches annex = []"
  "items annex = [lostWallet, foundPurse, stalePurse, zeroPurse, resolvedPurse]"
  by (simp_all add: annex_def)


lemma more_fields:
  "itemId resolvedPurse = ''F6''" "itemType resolvedPurse = Found" "uid resolvedPurse = ''alice''"
  "status resolvedPurse = Resolved"
  "itemId ownPurse = ''F5''" "itemType ownPurse = Found" "uid ownPurse = ''alice''"
  "status ownPurse = Open"
  by (simp_all add: resolvedPurse_def ownPurse_def foundPurse_def)


lemma campus_enriched:
  "filter (\<lambda>i. itemType i = Found \<and> status i = Open) (enrichedItems lostWallet campus)
     = [foundPurse, stalePurse, zeroPurse]"
  "filter (\<lambda>i. itemType i = Lost \<and> status i = Open) (enrichedItems foundPurse campus)
     = [lostWallet]"
  by (simp_all add: enrichedItems_def campus_fields example_fields setEnrichment_def)

lemma campus_ranked:
  "rankedPairs ClientCall 1000 lostWallet campus = [(lostWallet, foundPurse), (lostWallet, zeroPurse)]"
  "rankedPairs LostTrigger 1000 lostWallet campus = [(lostWallet, foundPurse), (lostWallet, zeroPurse)]"
  "rankedPairs FoundTrigger 1000 foundPurse campus = [(lostWallet, foundPurse)]"
  "rankedPairs ClientCall 1000 lostWallet annex = [(lostWallet, foundPurse), (lostWallet, zeroPurse)]"
  by (simp_all add: rankedPairs_def campus_fields annex_fields example_fields more_fields
      campus_enriched campus_top_client campus_top_server campus_top_found
      byType_def lostFirst_def foundLast_def)







subsection \<open>Failures in the Notifying phase\<close>


lemma guards_keep_matches:
  "matches (snd (matchExists a b w)) = matches w"
  "matches (snd (matchExists_client a b w)) = matches w"
  by (auto simp: matchExists_def matchExists_client_def storeCall_def Let_def
      split: option.splits nat.splits)
















subsection \<open>Orientation of the pairs\<close>

lemma addNotification_keeps_matches:
  "matches (snd (addNotification n w)) = matches w"
  by (auto simp: addNotification_def storeCall_def split: option.splits nat.splits)

lemma addMatch_matches:
  "matches (snd (addMatch r w)) = matches w \<or> matches (snd (addMatch r w)) = matches w @ [r]"
  by (auto simp: addMatch_def storeCall_def split: option.splits nat.splits)

lemma createNotification_matches:
  "matches (snd (createNotification l f sc md w)) = matches w \<or>
   matches (snd (createNotification l f sc md w)) = matches w @ [newMatchRecord l f sc md]"
proof (cases "uid l = uid f")
  case True
  then show ?thesis by (simp add: createNotification_def)
next
  case False
  obtain x1 w1 where a: "addNotification (lostNotif l f sc md) w = (x1, w1)"
    by (cases "addNotification (lostNotif l f sc md) w")
  with addNotification_keeps_matches [of "lostNotif l f sc md" w] have m1: "matches w1 = matches w"
    by simp
  obtain x2 w2 where b: "addMatch (newMatchRecord l f sc md) w1 = (x2, w2)"
    by (cases "addMatch (newMatchRecord l f sc md) w1")
  with addMatch_matches [of "newMatchRecord l f sc md" w1] m1
  have m2: "matches w2 = matches w \<or> matches w2 = matches w @ [newMatchRecord l f sc md]"
    by simp
  from False a b m1 m2 show ?thesis
    by (auto simp: createNotification_def split: sum.splits)
qed

lemma createMatchNotification_matches:
  "matches (snd (createMatchNotification l f sc md w)) = matches w \<or>
   matches (snd (createMatchNotification l f sc md w)) = matches w @ [newMatchRecord l f sc md]"
proof (cases "uid l = uid f")
  case True
  then show ?thesis by (simp add: createMatchNotification_def)
next
  case False
  obtain x1 w1 where a: "addNotification (lostNotif l f sc md) w = (x1, w1)"
    by (cases "addNotification (lostNotif l f sc md) w")
  with addNotification_keeps_matches [of "lostNotif l f sc md" w] have m1: "matches w1 = matches w"
    by simp
  obtain x2 w2 where b: "addNotification (foundNotif l f sc md) w1 = (x2, w2)"
    by (cases "addNotification (foundNotif l f sc md) w1")
  with addNotification_keeps_matches [of "foundNotif l f sc md" w1] m1 have m2: "matches w2 = matches w"
    by simp
  obtain x3 w3 where c: "addMatch (newMatchRecord l f sc md) w2 = (x3, w3)"
    by (cases "addMatch (newMatchRecord l f sc md) w2")
  with addMatch_matches [of "newMatchRecord l f sc md" w2] m2
  have m3: "matches w3 = matches w \<or> matches w3 = matches w @ [newMatchRecord l f sc md]"
    by simp
  from False a b c m1 m2 m3 show ?thesis
    by (auto simp: createMatchNotification_def split: sum.splits)
qed

lemma notifyLoop_records:
  assumes GM: "\<And>a b w. matches (snd (guard a b w)) = matches w"
    and DM: "\<And>l f sc md w. matches (snd (dispatch l f sc md w)) = matches w \<or>
               matches (snd (dispatch l f sc md w)) = matches w @ [newMatchRecord l f sc md]"
  shows "\<exists>new. matches (snd (notifyLoop orient guard dispatch ms c w)) = matches w @ new \<and>
           (\<forall>r \<in> set new. \<exists>m \<in> set ms.
              r = newMatchRecord (fst (orient m)) (snd (orient m)) (cScore m) (cDetails m))"
proof (induction ms arbitrary: c w)
  case Nil
  then show ?case by simp
next
  case (Cons m ms)
  let ?l = "fst (orient m)" and ?f = "snd (orient m)"
  let ?r = "newMatchRecord ?l ?f (cScore m) (cDetails m)"
  obtain x1 w1 where g: "guard (itemId ?l) (itemId ?f) w = (x1, w1)"
    by (cases "guard (itemId ?l) (itemId ?f) w")
  with GM [of "itemId ?l" "itemId ?f" w] have m1: "matches w1 = matches w"
    by simp
  show ?case
  proof (cases x1)
    case (Inl e)
    with g m1 show ?thesis by simp
  next
    case (Inr ex)
    show ?thesis
    proof (cases ex)
      case True
      from Cons.IH [of c w1] obtain new where
        "matches (snd (notifyLoop orient guard dispatch ms c w1)) = matches w1 @ new"
        "\<forall>r \<in> set new. \<exists>m \<in> set ms.
              r = newMatchRecord (fst (orient m)) (snd (orient m)) (cScore m) (cDetails m)"
        by blast
      with g Inr True m1 show ?thesis by auto
    next
      case False
      obtain x2 w2 where d: "dispatch ?l ?f (cScore m) (cDetails m) w1 = (x2, w2)"
        by (cases "dispatch ?l ?f (cScore m) (cDetails m) w1")
      with DM [of ?l ?f "cScore m" "cDetails m" w1] m1
      have m2: "matches w2 = matches w \<or> matches w2 = matches w @ [?r]"
        by simp
      show ?thesis
      proof (cases x2)
        case (Inl e)
        with g d \<open>x1 = Inr ex\<close> False m2 show ?thesis
          by (cases "matches w2 = matches w") auto
      next
        case (Inr ns)
        from Cons.IH [of "c + 1" w2] obtain new where
          n: "matches (snd (notifyLoop orient guard dispatch ms (c + 1) w2)) = matches w2 @ new"
          "\<forall>r \<in> set new. \<exists>m \<in> set ms.
              r = newMatchRecord (fst (orient m)) (snd (orient m)) (cScore m) (cDetails m)"
          by blast
        from m2 show ?thesis
        proof
          assume "matches w2 = matches w"
          with g d \<open>x1 = Inr ex\<close> False Inr n show ?thesis by auto
        next
          assume "matches w2 = matches w @ [?r]"
          with n have "matches (snd (notifyLoop orient guard dispatch ms (c + 1) w2))
              = matches w @ (?r # new)"
            by simp
          moreover have "\<forall>r \<in> set (?r # new). \<exists>m' \<in> set (m # ms).
              r = newMatchRecord (fst (orient m')) (snd (orient m')) (cScore m') (cDetails m')"
            using n(2) by auto
          ultimately show ?thesis
            using g d \<open>x1 = Inr ex\<close> False Inr by (intro exI [of _ "?r # new"]) simp
        qed
      qed
    qed
  qed
qed

lemma queryOpenItems_result:
  assumes "queryOpenItems ty w = (x, w1)"
  shows "matches w1 = matches w"
    and "x = Inr docs \<Longrightarrow> d \<in> set docs \<Longrightarrow> itemType d = ty"
  using assms
  by (auto simp: queryOpenItems_def storeCall_def split: option.splits nat.splits)

lemma other_kind: "k \<noteq> Lost \<Longrightarrow> k = Found"
  by (cases k) simp_all

lemma enrichedItems_doc:
  "c \<in> set (filter (\<lambda>i. itemType i = ty \<and> status i = Open) (enrichedItems x w)) \<Longrightarrow>
     itemType c = ty \<and>
     (\<exists>d \<in> set (items w). itemId d = itemId c \<and> itemType d = ty \<and> status d = Open \<and>
                             uid d = uid c)"
  by (auto simp: enrichedItems_def)

lemma rankedPairs_types:
  assumes "(l, f) \<in> set (rankedPairs e now x w)"
  shows "itemType l = Lost \<and> itemType f = Found \<and>
         ((l = x \<and> (\<exists>d \<in> set (items w). itemId d = itemId f \<and> itemType d = Found \<and>
                       status d = Open \<and> uid d = uid f)) \<or>
          (f = x \<and> (\<exists>d \<in> set (items w). itemId d = itemId l \<and> itemType d = Lost \<and>
                       status d = Open \<and> uid d = uid l)))"
proof (cases e)
  case ClientCall
  let ?ty = "if itemType x = Lost then Found else Lost"
  let ?docs = "filter (\<lambda>i. itemType i = ?ty \<and> status i = Open) (items w)"
  from assms ClientCall obtain m where
    m: "m \<in> set (topMatches_client now x ?docs)" "(l, f) = byType x m"
    by (auto simp: rankedPairs_def)
  from m(1) have "cItem m \<in> set ?docs"
    by (simp only: topMatches_client_eq topMatches_items)
  then have c: "cItem m \<in> set (items w)" "itemType (cItem m) = ?ty" "status (cItem m) = Open"
    by auto
  show ?thesis
  proof (cases "itemType x = Lost")
    case True
    with m(2) c show ?thesis
      by (auto simp: byType_def)
  next
    case False
    with m(2) c other_kind [OF False] show ?thesis
      by (auto simp: byType_def)
  qed
next
  case LostTrigger
  from assms LostTrigger have ty: "itemType x = Lost"
    by (auto simp: rankedPairs_def split: if_splits)
  with assms LostTrigger obtain m where
    m: "m \<in> set (topMatches now (calculateMatchScore (enriched x))
          (filter (\<lambda>i. itemType i = Found \<and> status i = Open) (enrichedItems x w)))"
      "(l, f) = lostFirst x m"
    by (auto simp: rankedPairs_def)
  from topMatches_items [OF m(1)] have "itemType (cItem m) = Found \<and>
     (\<exists>d \<in> set (items w). itemId d = itemId (cItem m) \<and> itemType d = Found \<and> status d = Open \<and>
                             uid d = uid (cItem m))"
    by (rule enrichedItems_doc)
  with m(2) ty show ?thesis
    by (simp add: lostFirst_def)
next
  case FoundTrigger
  from assms FoundTrigger have ty: "itemType x = Found"
    by (auto simp: rankedPairs_def split: if_splits)
  with assms FoundTrigger obtain m where
    m: "m \<in> set (topMatches now (\<lambda>lostItem. calculateMatchScore lostItem (enriched x))
          (filter (\<lambda>i. itemType i = Lost \<and> status i = Open) (enrichedItems x w)))"
      "(l, f) = foundLast x m"
    by (auto simp: rankedPairs_def)
  from topMatches_items [OF m(1)] have "itemType (cItem m) = Lost \<and>
     (\<exists>d \<in> set (items w). itemId d = itemId (cItem m) \<and> itemType d = Lost \<and> status d = Open \<and>
                             uid d = uid (cItem m))"
    by (rule enrichedItems_doc)
  with m(2) ty show ?thesis
    by (simp add: foundLast_def)
qed

lemma updateEnrichment_result:
  assumes "updateEnrichment (itemId x) (extractKeywords (Some (itemText x)))
             (normalizeLocation (location x)) w = (r, w1)"
  shows "matches w1 = matches w" and "r = Inr u \<Longrightarrow> items w1 = enrichedItems x w"
  using assms
  by (auto simp: updateEnrichment_def storeCall_def enrichedItems_def
      split: option.splits nat.splits if_splits)

lemma queryOpenItems_docs:
  assumes "queryOpenItems ty w = (Inr docs, w1)"
  shows "docs = filter (\<lambda>i. itemType i = ty \<and> status i = Open) (items w)"
  using assms
  by (auto simp: queryOpenItems_def storeCall_def split: option.splits nat.splits)

lemma loop_records:
  assumes GM: "\<And>a b w. matches (snd (guard a b w)) = matches w"
    and DM: "\<And>l f sc md w. matches (snd (dispatch l f sc md w)) = matches w \<or>
               matches (snd (dispatch l f sc md w)) = matches w @ [newMatchRecord l f sc md]"
  shows "\<exists>new. matches (snd (notifyLoop orient guard dispatch ms c w)) = matches w @ new \<and>
           (\<forall>r \<in> set new. \<exists>(l, f) \<in> set (map orient ms).
              lostItemId r = itemId l \<and> foundItemId r = itemId f)"
proof -
  from notifyLoop_records [of guard dispatch orient ms c w, OF GM DM] obtain new where
    n: "matches (snd (notifyLoop orient guard dispatch ms c w)) = matches w @ new"
      "\<forall>r \<in> set new. \<exists>m \<in> set ms.
              r = newMatchRecord (fst (orient m)) (snd (orient m)) (cScore m) (cDetails m)"
    by blast
  have "\<exists>(l, f) \<in> set (map orient ms). lostItemId r = itemId l \<and> foundItemId r = itemId f"
    if "r \<in> set new" for r
  proof -
    from n(2) that obtain m where "m \<in> set ms"
      "r = newMatchRecord (fst (orient m)) (snd (orient m)) (cScore m) (cDetails m)"
      by blast
    then show ?thesis
      by (intro bexI [of _ "orient m"]) (simp_all add: split_beta)
  qed
  with n(1) show ?thesis
    by blast
qed

lemma runEntry_records:
  "\<exists>new. matches (snd (runEntry e now x w)) = matches w @ new \<and>
     (\<forall>r \<in> set new. \<exists>(l, f) \<in> set (rankedPairs e now x w).
        lostItemId r = itemId l \<and> foundItemId r = itemId f)"
proof -
  have client: ?thesis if e: "e = ClientCall"
  proof -
    let ?ty = "if itemType x = Lost then Found else Lost"
    obtain q w1 where q: "queryOpenItems ?ty w = (q, w1)"
      by (cases "queryOpenItems ?ty w")
    note qm = queryOpenItems_result(1) [OF q]
    show ?thesis
    proof (cases q)
      case (Inl er)
      with q qm e show ?thesis
        by (simp add: runEntry_def findMatches_def)
    next
      case (Inr docs)
      with q have docs: "docs = filter (\<lambda>i. itemType i = ?ty \<and> status i = Open) (items w)"
        by (simp add: queryOpenItems_docs)
      from loop_records [of matchExists_client createMatchNotification "byType x"
          "topMatches_client now x docs" 0 w1,
          OF guards_keep_matches(2) createMatchNotification_matches]
      obtain new where
        n: "matches (snd (notifyLoop (byType x) matchExists_client createMatchNotification
              (topMatches_client now x docs) 0 w1)) = matches w1 @ new"
          "\<forall>r \<in> set new. \<exists>(l, f) \<in> set (map (byType x) (topMatches_client now x docs)).
              lostItemId r = itemId l \<and> foundItemId r = itemId f"
        by blast
      obtain r3 w3 where l: "notifyLoop (byType x) matchExists_client createMatchNotification
              (topMatches_client now x docs) 0 w1 = (r3, w3)"
        by (cases "notifyLoop (byType x) matchExists_client createMatchNotification
              (topMatches_client now x docs) 0 w1")
      from n(2) docs e have "\<forall>r \<in> set new. \<exists>(l, f) \<in> set (rankedPairs e now x w).
              lostItemId r = itemId l \<and> foundItemId r = itemId f"
        by (simp add: rankedPairs_def)
      moreover from n(1) l q Inr qm e have "matches (snd (runEntry e now x w)) = matches w @ new"
        by (cases r3) (simp_all add: runEntry_def findMatches_def)
      ultimately show ?thesis
        by blast
    qed
  qed
  have trigger: ?thesis
    if run: "runEntry e now x w =
        (if itemType x \<noteq> kind then (Inr None, w)
         else (case updateEnrichment (itemId x) (extractKeywords (Some (itemText x)))
                      (normalizeLocation (location x)) w of
              (Inl er, w1) \<Rightarrow> (Inl er, w1)
            | (Inr u, w1) \<Rightarrow>
                (case queryOpenItems other w1 of
                   (Inl er, w2) \<Rightarrow> (Inl er, w2)
                 | (Inr docs, w2) \<Rightarrow>
                     (case notifyLoop orient matchExists createNotification
                             (topMatches now scoreOf docs) 0 w2 of
                        (Inl er, w3) \<Rightarrow> (Inl er, w3)
                      | (Inr count, w3) \<Rightarrow> (Inr (Some count), w3)))))"
      and pairs: "rankedPairs e now x w =
        (if itemType x \<noteq> kind then []
         else map orient (topMatches now scoreOf
                (filter (\<lambda>i. itemType i = other \<and> status i = Open) (enrichedItems x w))))"
    for kind other orient scoreOf
  proof (cases "itemType x = kind")
    case False
    with run show ?thesis by simp
  next
    case True
    obtain r1 w1 where u: "updateEnrichment (itemId x) (extractKeywords (Some (itemText x)))
                      (normalizeLocation (location x)) w = (r1, w1)"
      by (cases "updateEnrichment (itemId x) (extractKeywords (Some (itemText x)))
                      (normalizeLocation (location x)) w")
    note ur = updateEnrichment_result [OF u]
    show ?thesis
    proof (cases r1)
      case (Inl er)
      with u ur(1) True show ?thesis
        by (simp add: run)
    next
      case u_ok: (Inr uu)
      with ur(2) have its: "items w1 = enrichedItems x w"
        by simp
      obtain q w2 where q: "queryOpenItems other w1 = (q, w2)"
        by (cases "queryOpenItems other w1")
      note qm = queryOpenItems_result(1) [OF q]
      show ?thesis
      proof (cases q)
        case (Inl er)
        with u u_ok q qm ur(1) True show ?thesis
          by (simp add: run)
      next
        case (Inr docs)
        with q have "docs = filter (\<lambda>i. itemType i = other \<and> status i = Open) (items w1)"
          by (simp add: queryOpenItems_docs)
        with its have docs: "docs = filter (\<lambda>i. itemType i = other \<and> status i = Open)
            (enrichedItems x w)"
          by simp
        from loop_records [of matchExists createNotification orient
            "topMatches now scoreOf docs" 0 w2,
            OF guards_keep_matches(1) createNotification_matches]
        obtain new where
          n: "matches (snd (notifyLoop orient matchExists createNotification
                (topMatches now scoreOf docs) 0 w2)) = matches w2 @ new"
            "\<forall>r \<in> set new. \<exists>(l, f) \<in> set (map orient (topMatches now scoreOf docs)).
                lostItemId r = itemId l \<and> foundItemId r = itemId f"
          by blast
        obtain r3 w3 where l: "notifyLoop orient matchExists createNotification
                (topMatches now scoreOf docs) 0 w2 = (r3, w3)"
          by (cases "notifyLoop orient matchExists createNotification
                (topMatches now scoreOf docs) 0 w2")
        from n(2) docs True have "\<forall>r \<in> set new. \<exists>(l, f) \<in> set (rankedPairs e now x w).
                lostItemId r = itemId l \<and> foundItemId r = itemId f"
          by (simp add: pairs)
        moreover from n(1) l u u_ok q Inr qm ur(1) True
        have "matches (snd (runEntry e now x w)) = matches w @ new"
          by (cases r3) (simp_all add: run)
        ultimately show ?thesis
          by blast
      qed
    qed
  qed
  show ?thesis
  proof (cases e)
    case ClientCall
    then show ?thesis by (rule client)
  next
    case LostTrigger
    show ?thesis
      by (rule trigger [where kind = Lost and other = Found and orient = "lostFirst x"
            and scoreOf = "calculateMatchScore (enriched x)"])
        (simp_all add: LostTrigger runEntry_def onLostItemCreated_def rankedPairs_def)
  next
    case FoundTrigger
    show ?thesis
      by (rule trigger [where kind = Found and other = Lost and orient = "foundLast x"
            and scoreOf = "\<lambda>lostItem. calculateMatchScore lostItem (enriched x)"])
        (simp_all add: FoundTrigger runEntry_def onFoundItemCreated_def rankedPairs_def)
  qed
qed

text \<open>The queries of the loop to the Dedup Guard.\<close>

lemma notifyLoop_queries:
  assumes "\<forall>(l, f) \<in> set (map orient ms). \<forall>w. g1 (itemId l) (itemId f) w = g2 (itemId l) (itemId f) w"
  shows "notifyLoop orient g1 dispatch ms count w = notifyLoop orient g2 dispatch ms count w"
  using assms
proof (induction ms arbitrary: count w)
  case Nil
  then show ?case by simp
next
  case (Cons m ms)
  from Cons.prems have here: "g1 (itemId (fst (orient m))) (itemId (snd (orient m))) w
      = g2 (itemId (fst (orient m))) (itemId (snd (orient m))) w"
    and rest: "\<forall>(l, f) \<in> set (map orient ms). \<forall>w. g1 (itemId l) (itemId f) w = g2 (itemId l) (itemId f) w"
    by (simp_all add: split_beta)
  from Cons.IH [OF rest] here show ?case
    by (simp split: prod.splits sum.splits)
qed

lemma recorded_pair_found:
  assumes "failAfter w = None" "r \<in> set (matches w)"
  shows "matchExists (lostItemId r) (foundItemId r) w = (Inr True, w)"
    and "matchExists_client (lostItemId r) (foundItemId r) w = (Inr True, w)"
    and "matchesFor (lostItemId r) (foundItemId r) w \<noteq> []"
proof -
  from assms(2) have "r \<in> set (matchesFor (lostItemId r) (foundItemId r) w)"
    by (simp add: matchesFor_def)
  then show "matchesFor (lostItemId r) (foundItemId r) w \<noteq> []"
    by auto
  with assms(1) show "matchExists (lostItemId r) (foundItemId r) w = (Inr True, w)"
    and "matchExists_client (lostItemId r) (foundItemId r) w = (Inr True, w)"
    by (simp_all add: matchExists_ok matchExists_client_ok)
qed

text \<open>
  C9. \<^verbatim>\<open>findMatches\<close> orders a pair as the trigger of the new item's type does. In every
  store, every pair a pass of a call site ranks is (lost item, found item): one of the two
  is the new item, the other has the id, the type and the owner of an open document of the
  store. The loop asks the Dedup Guard about the ids of its pairs in that order, lost id
  first, and about nothing else: two guards that agree on these queries give the same
  pass. Every match record a pass writes, also a pass that fails, carries the lost id and
  the found id of one of its ranked pairs. In a store that rejects no call, both Dedup
  Guards answer true for the two ids of every record the store holds, and a pass from any
  call site for any item adds no record and no notification for them. So a pair one call
  site has recorded is found by the check of every other: after a pass that ranks a pair
  with two owners in a store that held nothing for it, the next pass, from whatever call
  site, for whatever item and at whatever time, leaves the pair its one match record.
\<close>

theorem pairs_are_lost_then_found:
  "(itemType newItem = Lost \<longrightarrow> byType newItem m = lostFirst newItem m) \<and>
   (itemType newItem = Found \<longrightarrow> byType newItem m = foundLast newItem m) \<and>
   (\<forall>(l, f) \<in> set (rankedPairs ep now newItem w).
      itemType l = Lost \<and> itemType f = Found \<and>
      ((l = newItem \<and> (\<exists>d \<in> set (items w). itemId d = itemId f \<and> itemType d = Found \<and>
                          status d = Open \<and> uid d = uid f)) \<or>
       (f = newItem \<and> (\<exists>d \<in> set (items w). itemId d = itemId l \<and> itemType d = Lost \<and>
                          status d = Open \<and> uid d = uid l)))) \<and>
   ((\<forall>(l, f) \<in> set (map orient ms).
        \<forall>v. guard1 (itemId l) (itemId f) v = guard2 (itemId l) (itemId f) v) \<longrightarrow>
      notifyLoop orient guard1 dispatch ms count w = notifyLoop orient guard2 dispatch ms count w) \<and>
   (\<exists>new. matches (snd (runEntry ep now newItem w)) = matches w @ new \<and>
      (\<forall>r \<in> set new. \<exists>(l, f) \<in> set (rankedPairs ep now newItem w).
         lostItemId r = itemId l \<and> foundItemId r = itemId f)) \<and>
   (failAfter w = None \<and>
    (updatesDocument ep newItem \<longrightarrow> itemId newItem \<in> set (map itemId (items w))) \<and>
    r \<in> set (matches w) \<longrightarrow>
      matchExists (lostItemId r) (foundItemId r) w = (Inr True, w) \<and>
      matchExists_client (lostItemId r) (foundItemId r) w = (Inr True, w) \<and>
      (\<exists>c w'. runEntry ep now newItem w = (Inr c, w') \<and>
         matchesFor (lostItemId r) (foundItemId r) w' = matchesFor (lostItemId r) (foundItemId r) w \<and>
         notificationsFor (lostItemId r) (foundItemId r) w'
           = notificationsFor (lostItemId r) (foundItemId r) w)) \<and>
   (failAfter w = None \<and>
    (updatesDocument ep newItem \<longrightarrow> itemId newItem \<in> set (map itemId (items w))) \<and>
    (updatesDocument ep2 item2 \<longrightarrow> itemId item2 \<in> set (map itemId (items w))) \<and>
    matchesFor (itemId lostItem) (itemId foundItem) w = [] \<and>
    notificationsFor (itemId lostItem) (itemId foundItem) w = [] \<and>
    (lostItem, foundItem) \<in> set (rankedPairs ep now newItem w) \<and>
    uid lostItem \<noteq> uid foundItem \<longrightarrow>
      (\<exists>c1 w1 c2 w2.
         runEntry ep now newItem w = (Inr c1, w1) \<and> runEntry ep2 now2 item2 w1 = (Inr c2, w2) \<and>
         matchExists (itemId lostItem) (itemId foundItem) w1 = (Inr True, w1) \<and>
         matchExists_client (itemId lostItem) (itemId foundItem) w1 = (Inr True, w1) \<and>
         length (matchesFor (itemId lostItem) (itemId foundItem) w2) = 1 \<and>
         matchesFor (itemId lostItem) (itemId foundItem) w2
           = matchesFor (itemId lostItem) (itemId foundItem) w1 \<and>
         notificationsFor (itemId lostItem) (itemId foundItem) w2
           = notificationsFor (itemId lostItem) (itemId foundItem) w1))"
proof -
  have order: "(itemType newItem = Lost \<longrightarrow> byType newItem m = lostFirst newItem m) \<and>
      (itemType newItem = Found \<longrightarrow> byType newItem m = foundLast newItem m)"
    by (simp add: byType_def lostFirst_def foundLast_def)
  have types: "\<forall>(l, f) \<in> set (rankedPairs ep now newItem w).
      itemType l = Lost \<and> itemType f = Found \<and>
      ((l = newItem \<and> (\<exists>d \<in> set (items w). itemId d = itemId f \<and> itemType d = Found \<and>
                          status d = Open \<and> uid d = uid f)) \<or>
       (f = newItem \<and> (\<exists>d \<in> set (items w). itemId d = itemId l \<and> itemType d = Lost \<and>
                          status d = Open \<and> uid d = uid l)))"
    using rankedPairs_types [of _ _ ep now newItem w] by blast
  have queries: "(\<forall>(l, f) \<in> set (map orient ms).
        \<forall>v. guard1 (itemId l) (itemId f) v = guard2 (itemId l) (itemId f) v) \<longrightarrow>
      notifyLoop orient guard1 dispatch ms count w = notifyLoop orient guard2 dispatch ms count w"
    using notifyLoop_queries [of orient ms guard1 guard2 dispatch count w] by blast
  have found: "matchExists (lostItemId r) (foundItemId r) w = (Inr True, w) \<and>
      matchExists_client (lostItemId r) (foundItemId r) w = (Inr True, w) \<and>
      (\<exists>c w'. runEntry ep now newItem w = (Inr c, w') \<and>
         matchesFor (lostItemId r) (foundItemId r) w' = matchesFor (lostItemId r) (foundItemId r) w \<and>
         notificationsFor (lostItemId r) (foundItemId r) w'
           = notificationsFor (lostItemId r) (foundItemId r) w)"
    if "failAfter w = None"
      "updatesDocument ep newItem \<longrightarrow> itemId newItem \<in> set (map itemId (items w))"
      "r \<in> set (matches w)"
    using recorded_pair_found [OF that(1,3)]
      runEntry_keeps [OF that(1,2) recorded_pair_found(3) [OF that(1,3)], of now]
    by blast
  have twice: "\<exists>c1 w1 c2 w2.
         runEntry ep now newItem w = (Inr c1, w1) \<and> runEntry ep2 now2 item2 w1 = (Inr c2, w2) \<and>
         matchExists (itemId lostItem) (itemId foundItem) w1 = (Inr True, w1) \<and>
         matchExists_client (itemId lostItem) (itemId foundItem) w1 = (Inr True, w1) \<and>
         length (matchesFor (itemId lostItem) (itemId foundItem) w2) = 1 \<and>
         matchesFor (itemId lostItem) (itemId foundItem) w2
           = matchesFor (itemId lostItem) (itemId foundItem) w1 \<and>
         notificationsFor (itemId lostItem) (itemId foundItem) w2
           = notificationsFor (itemId lostItem) (itemId foundItem) w1"
    if "failAfter w = None"
      "updatesDocument ep newItem \<longrightarrow> itemId newItem \<in> set (map itemId (items w))"
      "updatesDocument ep2 item2 \<longrightarrow> itemId item2 \<in> set (map itemId (items w))"
      "matchesFor (itemId lostItem) (itemId foundItem) w = []"
      "notificationsFor (itemId lostItem) (itemId foundItem) w = []"
      "(lostItem, foundItem) \<in> set (rankedPairs ep now newItem w)"
      "uid lostItem \<noteq> uid foundItem"
    using two_passes [OF that(1-6) refl refl that(7), of now2] by blast
  from order types queries runEntry_records [of ep now newItem w] found twice
  show ?thesis
    by blast
qed

text \<open>The example store after the trigger for the lost wallet.\<close>

lemma enrichedWallet_fields:
  "itemId enrichedWallet = ''L1''" "itemType enrichedWallet = Lost" "uid enrichedWallet = ''alice''"
  "status enrichedWallet = Open"
  by (simp_all add: enrichedWallet_def example_fields)

lemma campus_top_second:
  "topMatches 2000 (\<lambda>lostItem. calculateMatchScore lostItem (enriched foundPurse)) [enrichedWallet] =
     [toCandidate enrichedWallet (calculateMatchScore enrichedWallet (enriched foundPurse))]"
  by code_simp

lemma campus_after_update:
  "enrichedItems lostWallet campus = [enrichedWallet, foundPurse, stalePurse, zeroPurse]"
  by (simp add: enrichedItems_def campus_fields example_fields setEnrichment_def enrichedWallet_def)

lemma onLostItemCreated_campus:
  "onLostItemCreated 1000 lostWallet campus =
     (Inr (Some 2),
      addRecords
        [lostNotif lostWallet zeroPurse (score (calculateMatchScore (enriched lostWallet) zeroPurse))
           (details (calculateMatchScore (enriched lostWallet) zeroPurse))]
        (newMatchRecord lostWallet zeroPurse (score (calculateMatchScore (enriched lostWallet) zeroPurse))
           (details (calculateMatchScore (enriched lostWallet) zeroPurse)))
        (addRecords
           [lostNotif lostWallet foundPurse (score (calculateMatchScore (enriched lostWallet) foundPurse))
              (details (calculateMatchScore (enriched lostWallet) foundPurse))]
           (newMatchRecord lostWallet foundPurse (score (calculateMatchScore (enriched lostWallet) foundPurse))
              (details (calculateMatchScore (enriched lostWallet) foundPurse)))
           (campus\<lparr>items := [enrichedWallet, foundPurse, stalePurse, zeroPurse]\<rparr>)))"
proof -
  have there: "itemId lostWallet \<in> set (map itemId (items campus))"
    by (simp add: campus_fields example_fields)
  show ?thesis
    by (simp add: onLostItemCreated_ok [OF campus_fields(1) example_fields(2) there]
        campus_after_update enrichedWallet_fields campus_top_server matchExists_ok createNotification_rec
        lostFirst_def example_fields matchesFor_addRecords matchesFor_def campus_fields)
qed

lemma campus_second_pass:
  "rankedPairs FoundTrigger 2000 foundPurse (snd (runEntry LostTrigger 1000 lostWallet campus))
     = [(enrichedWallet, foundPurse)]"
proof -
  have "enrichedItems foundPurse (snd (runEntry LostTrigger 1000 lostWallet campus))
      = map (setEnrichment ''F2'' (extractKeywords (Some (itemText foundPurse)))
               (normalizeLocation (location foundPurse)))
          [enrichedWallet, foundPurse, stalePurse, zeroPurse]"
    by (simp add: runEntry_def onLostItemCreated_campus enrichedItems_def example_fields)
  moreover have "setEnrichment ''F2'' kws loc enrichedWallet = enrichedWallet" for kws loc
    by (simp add: setEnrichment_def enrichedWallet_fields)
  ultimately have "filter (\<lambda>i. itemType i = Lost \<and> status i = Open)
      (enrichedItems foundPurse (snd (runEntry LostTrigger 1000 lostWallet campus)))
        = [enrichedWallet]"
    by (simp add: example_fields enrichedWallet_fields)
  then show ?thesis
    by (simp add: rankedPairs_def example_fields campus_top_second foundLast_def)
qed

theorem pairs_are_lost_then_found_witness:
  "byType lostWallet (toCandidate foundPurse (calculateMatchScore_client lostWallet foundPurse))
     = (lostWallet, foundPurse) \<and>
   byType foundPurse (toCandidate lostWallet (calculateMatchScore_client foundPurse lostWallet))
     = (lostWallet, foundPurse) \<and>
   rankedPairs LostTrigger 1000 lostWallet campus = [(lostWallet, foundPurse), (lostWallet, zeroPurse)] \<and>
   itemType lostWallet = Lost \<and> itemType foundPurse = Found \<and> itemType zeroPurse = Found \<and>
   map (\<lambda>r. (lostItemId r, foundItemId r)) (matches (snd (runEntry LostTrigger 1000 lostWallet campus)))
     = [(''L1'', ''F2''), (''L1'', ''F4'')] \<and>
   map (\<lambda>(l, f). (itemId l, itemId f))
     (rankedPairs FoundTrigger 2000 foundPurse (snd (runEntry LostTrigger 1000 lostWallet campus)))
     = [(''L1'', ''F2'')] \<and>
   (\<exists>c1 w1 c2 w2.
      runEntry LostTrigger 1000 lostWallet campus = (Inr c1, w1) \<and>
      runEntry FoundTrigger 2000 foundPurse w1 = (Inr c2, w2) \<and>
      matchExists ''L1'' ''F2'' w1 = (Inr True, w1) \<and>
      length (matchesFor ''L1'' ''F2'' w2) = 1 \<and>
      notificationsFor ''L1'' ''F2'' w2 = notificationsFor ''L1'' ''F2'' w1) \<and>
   (\<exists>c1 w1 c2 w2.
      runEntry FoundTrigger 1000 foundPurse campus = (Inr c1, w1) \<and>
      runEntry ClientCall 2000 lostWallet w1 = (Inr c2, w2) \<and>
      matchExists_client ''L1'' ''F2'' w1 = (Inr True, w1) \<and>
      length (matchesFor ''L1'' ''F2'' w2) = 1 \<and>
      notificationsFor ''L1'' ''F2'' w2 = notificationsFor ''L1'' ''F2'' w1) \<and>
   notifyLoop (lostFirst lostWallet)
     (\<lambda>a b v. if a = ''F2'' \<or> a = ''F4'' then (Inl StoreError, v) else matchExists a b v)
     createNotification
     [toCandidate foundPurse (calculateMatchScore (enriched lostWallet) foundPurse),
      toCandidate zeroPurse (calculateMatchScore (enriched lostWallet) zeroPurse)] 0 campus
   = notifyLoop (lostFirst lostWallet) matchExists createNotification
     [toCandidate foundPurse (calculateMatchScore (enriched lostWallet) foundPurse),
      toCandidate zeroPurse (calculateMatchScore (enriched lostWallet) zeroPurse)] 0 campus"
proof -
  let ?c = "toCandidate foundPurse (calculateMatchScore_client lostWallet foundPurse)"
  let ?c' = "toCandidate lostWallet (calculateMatchScore_client foundPurse lostWallet)"
  let ?ms = "[toCandidate foundPurse (calculateMatchScore (enriched lostWallet) foundPurse),
      toCandidate zeroPurse (calculateMatchScore (enriched lostWallet) zeroPurse)]"
  let ?g = "\<lambda>a b v. if a = ''F2'' \<or> a = ''F4'' then (Inl StoreError, v) else matchExists a b v"
  have fresh: "matchesFor (itemId lostWallet) (itemId foundPurse) campus = []"
    "notificationsFor (itemId lostWallet) (itemId foundPurse) campus = []"
    by (simp_all add: matchesFor_def notificationsFor_def campus_fields)
  have doc: "updatesDocument e lostWallet \<longrightarrow> itemId lostWallet \<in> set (map itemId (items campus))"
    "updatesDocument e foundPurse \<longrightarrow> itemId foundPurse \<in> set (map itemId (items campus))" for e
    by (simp_all add: campus_fields example_fields)
  have owners: "uid lostWallet \<noteq> uid foundPurse"
    by (simp add: example_fields)
  have ranked: "(lostWallet, foundPurse) \<in> set (rankedPairs LostTrigger 1000 lostWallet campus)"
    "(lostWallet, foundPurse) \<in> set (rankedPairs FoundTrigger 1000 foundPurse campus)"
    by (simp_all add: campus_ranked)
  have agree: "\<forall>(l, f) \<in> set (map (lostFirst lostWallet) ?ms).
      \<forall>v. ?g (itemId l) (itemId f) v = matchExists (itemId l) (itemId f) v"
    by (simp add: lostFirst_def example_fields)
  note first = pairs_are_lost_then_found
    [where newItem = lostWallet and m = ?c and ep = LostTrigger and now = 1000 and w = campus
       and orient = "lostFirst lostWallet" and ms = ?ms and ?guard1.0 = ?g
       and ?guard2.0 = matchExists and dispatch = createNotification and count = 0
       and ?ep2.0 = FoundTrigger and ?item2.0 = foundPurse and ?now2.0 = 2000
       and lostItem = lostWallet and foundItem = foundPurse]
  note second = pairs_are_lost_then_found
    [where newItem = foundPurse and m = ?c' and ep = FoundTrigger and now = 1000 and w = campus
       and ?ep2.0 = ClientCall and ?item2.0 = lostWallet and ?now2.0 = 2000
       and lostItem = lostWallet and foundItem = foundPurse]
  from first have 1: "byType lostWallet ?c = (lostWallet, foundPurse)"
    by (simp add: example_fields lostFirst_def)
  from second have 2: "byType foundPurse ?c' = (lostWallet, foundPurse)"
    by (simp add: example_fields foundLast_def)
  from first agree have 3: "notifyLoop (lostFirst lostWallet) ?g createNotification ?ms 0 campus
      = notifyLoop (lostFirst lostWallet) matchExists createNotification ?ms 0 campus"
    by blast
  from first fresh doc owners ranked(1) campus_fields(1)
  have 4: "\<exists>c1 w1 c2 w2.
      runEntry LostTrigger 1000 lostWallet campus = (Inr c1, w1) \<and>
      runEntry FoundTrigger 2000 foundPurse w1 = (Inr c2, w2) \<and>
      matchExists (itemId lostWallet) (itemId foundPurse) w1 = (Inr True, w1) \<and>
      length (matchesFor (itemId lostWallet) (itemId foundPurse) w2) = 1 \<and>
      notificationsFor (itemId lostWallet) (itemId foundPurse) w2
        = notificationsFor (itemId lostWallet) (itemId foundPurse) w1"
    by blast
  from second fresh doc owners ranked(2) campus_fields(1)
  have 5: "\<exists>c1 w1 c2 w2.
      runEntry FoundTrigger 1000 foundPurse campus = (Inr c1, w1) \<and>
      runEntry ClientCall 2000 lostWallet w1 = (Inr c2, w2) \<and>
      matchExists_client (itemId lostWallet) (itemId foundPurse) w1 = (Inr True, w1) \<and>
      length (matchesFor (itemId lostWallet) (itemId foundPurse) w2) = 1 \<and>
      notificationsFor (itemId lostWallet) (itemId foundPurse) w2
        = notificationsFor (itemId lostWallet) (itemId foundPurse) w1"
    by blast
  have 6: "map (\<lambda>r. (lostItemId r, foundItemId r))
      (matches (snd (runEntry LostTrigger 1000 lostWallet campus)))
     = [(''L1'', ''F2''), (''L1'', ''F4'')]"
    by (simp add: runEntry_def onLostItemCreated_campus campus_fields example_fields)
  have 7: "map (\<lambda>(l, f). (itemId l, itemId f))
     (rankedPairs FoundTrigger 2000 foundPurse (snd (runEntry LostTrigger 1000 lostWallet campus)))
     = [(''L1'', ''F2'')]"
    by (simp add: campus_second_pass enrichedWallet_fields example_fields)
  from 1 2 3 4 5 6 7 show ?thesis
    by (simp add: campus_ranked example_fields)
qed

end
